theory Spec2Isabelle
  imports Main "HOL-Library.AList" "HOL-Library.Char_ord" "HOL-Library.List_Lexorder"
begin

section \<open>JavaScript values used by the bundler\<close>

text \<open>
  Strings are character lists (the sources the bundler handles are ASCII paths and
  identifiers).  A thrown \<^verbatim>\<open>Error\<close> is a value carrying its message; a
  function that may throw returns \<open>error + 'a\<close> with \<open>Inl\<close> for the throw.
\<close>

datatype error = Error string | TypeError string

definition DQ :: string where
  "DQ = [CHR 0x22]"

definition NL :: string where
  "NL = [CHR 0x0A]"

text \<open>\<^verbatim>\<open>Array.prototype.join\<close>.\<close>

fun join :: "string \<Rightarrow> string list \<Rightarrow> string" where
  "join sep [] = []"
| "join sep [x] = x"
| "join sep (x # y # ys) = x @ sep @ join sep (y # ys)"

text \<open>\<^verbatim>\<open>String.prototype.startsWith\<close> and \<^verbatim>\<open>endsWith\<close>.\<close>

definition startsWith :: "string \<Rightarrow> string \<Rightarrow> bool" where
  "startsWith s p = (take (length p) s = p)"

definition endsWith :: "string \<Rightarrow> string \<Rightarrow> bool" where
  "endsWith s p = (length p \<le> length s \<and> drop (length s - length p) s = p)"

section \<open>Resolver (resolver.js)\<close>

text \<open>
  The filesystem snapshot lists the paths that exist with what is stored there.
  \<^verbatim>\<open>fs.existsSync(p)\<close> holds when the path is listed, and
  \<^verbatim>\<open>fs.statSync(p).isFile()\<close> holds when the entry is a regular file.
\<close>

datatype fs_entry = File string | Directory

type_synonym snapshot = "(string \<times> fs_entry) list"

definition existsSync :: "snapshot \<Rightarrow> string \<Rightarrow> bool" where
  "existsSync snap p = (map_of snap p \<noteq> None)"

definition isFile :: "snapshot \<Rightarrow> string \<Rightarrow> bool" where
  "isFile snap p = (case map_of snap p of Some (File _) \<Rightarrow> True | _ \<Rightarrow> False)"

definition EXTENSIONS :: "string list" where
  "EXTENSIONS = ['''', ''.js'', ''.json'', ''/index.js'']"

text \<open>
  The \<^verbatim>\<open>for (const ext of EXTENSIONS)\<close> loop of \<^verbatim>\<open>resolveModule\<close>: the first
  candidate that exists and is a regular file is returned at once.
\<close>

fun tryExtensions :: "snapshot \<Rightarrow> string \<Rightarrow> string list \<Rightarrow> string option" where
  "tryExtensions snap basePath [] = None"
| "tryExtensions snap basePath (ext # exts) =
     (let candidate = basePath @ ext in
      if existsSync snap candidate \<and> isFile snap candidate then Some candidate
      else tryExtensions snap basePath exts)"

text \<open>
  \<^verbatim>\<open>resolveModule(specifier, fromDir)\<close>.  Node's \<^verbatim>\<open>path.resolve\<close> is a parameter
  (\<open>pathResolve fromDir specifier\<close>): it belongs to the platform, not to the bundler.
\<close>

definition resolveModule ::
  "(string \<Rightarrow> string \<Rightarrow> string) \<Rightarrow> snapshot \<Rightarrow> string \<Rightarrow> string \<Rightarrow> error + string" where
  "resolveModule pathResolve snap specifier fromDir =
     (if \<not> startsWith specifier ''.'' then
        Inl (Error (''Cannot resolve bare specifier '' @ DQ @ specifier @ DQ @
                    ''. Only relative paths are supported.''))
      else
        let basePath = pathResolve fromDir specifier in
        case tryExtensions snap basePath EXTENSIONS of
          Some candidate \<Rightarrow> Inr candidate
        | None \<Rightarrow>
            Inl (Error (''Cannot resolve module '' @ DQ @ specifier @ DQ @ '' from '' @ DQ @
                        fromDir @ DQ @ ''. Tried:'' @ NL @
                        join NL (map (\<lambda>ext. ''  '' @ basePath @ ext) EXTENSIONS))))"

section \<open>Ordered collections\<close>

text \<open>
  A JavaScript \<^verbatim>\<open>Map\<close> iterates in insertion order and \<^verbatim>\<open>set\<close> on a present key
  keeps the key's position: an association list with \<^const>\<open>AList.update\<close>,
  read with \<^const>\<open>map_of\<close>.  A \<^verbatim>\<open>Set\<close> is a list without duplicates in insertion
  order; \<^verbatim>\<open>add\<close> appends an absent element.
\<close>

definition set_add :: "'a \<Rightarrow> 'a list \<Rightarrow> 'a list" where
  "set_add x xs = (if x \<in> set xs then xs else xs @ [x])"

definition map_has :: "('k \<times> 'v) list \<Rightarrow> 'k \<Rightarrow> bool" where
  "map_has m k = (map_of m k \<noteq> None)"

section \<open>Module ids and chunk ids (dependency-graph.js)\<close>

text \<open>
  Node's \<^verbatim>\<open>path\<close> module is the platform's: its functions are fields of a record that
  the bundler's functions take as a parameter.
\<close>

record node_path =
  path_resolve :: "string \<Rightarrow> string \<Rightarrow> string"
  path_relative :: "string \<Rightarrow> string \<Rightarrow> string"
  path_dirname :: "string \<Rightarrow> string"
  path_sep :: char

text \<open>\<^verbatim>\<open>s.split(sep).join('/')\<close> for a one-character separator.\<close>

definition split_join :: "char \<Rightarrow> string \<Rightarrow> string" where
  "split_join sep s = map (\<lambda>c. if c = sep then CHR ''/'' else c) s"

definition toModuleId :: "node_path \<Rightarrow> string \<Rightarrow> string \<Rightarrow> string" where
  "toModuleId P absolutePath projectRoot =
     ''./'' @ split_join (path_sep P) (path_relative P projectRoot absolutePath)"

text \<open>
  \<^verbatim>\<open>toChunkId\<close>: four \<^verbatim>\<open>replace\<close> calls in a row.  The last one replaces a final
  \<^verbatim>\<open>_js\<close> by \<^verbatim>\<open>_js\<close>.
\<close>

definition strip_dot_slash :: "string \<Rightarrow> string" where
  "strip_dot_slash s = (if startsWith s ''./'' then drop 2 s else s)"

definition replace_js_suffix :: "string \<Rightarrow> string" where
  "replace_js_suffix s = (if endsWith s ''_js'' then take (length s - 3) s @ ''_js'' else s)"

definition toChunkId :: "string \<Rightarrow> string" where
  "toChunkId moduleId =
     replace_js_suffix
       (map (\<lambda>c. if c = CHR ''.'' then CHR ''_'' else c)
         (map (\<lambda>c. if c = CHR ''/'' \<or> c = CHR 0x5C then CHR ''_'' else c)
           (strip_dot_slash moduleId)))"

section \<open>Module records\<close>

text \<open>
  Acorn nodes carry \<^verbatim>\<open>start\<close> and \<^verbatim>\<open>end\<close> offsets into the source.  The records
  below are the objects that \<^verbatim>\<open>parseModule\<close> builds; \<open>resolvedPath\<close> is absent
  (\<open>None\<close>) until the graph builder has stored it.
\<close>

record node_range =
  n_start :: nat
  n_end :: nat

record import_specifier =
  spec_local :: string
  spec_imported :: string

record import_site =
  imp_source :: string
  imp_specifiers :: "import_specifier list"
  imp_node :: node_range
  imp_resolvedPath :: "string option"

record dynamic_import =
  dyn_source :: "string option"
  dyn_node :: node_range
  dyn_resolvedPath :: "string option"

record named_export =
  exp_local :: string
  exp_exported :: string
  exp_node :: node_range
  exp_declarationNode :: "node_range option"
  exp_reexportSource :: "string option"

record binding =
  modulePath :: string
  importedName :: string

text \<open>
  The syntax tree comes from acorn and is read through acorn-walk, both outside the
  bundler.  A node is kept with the fields the bundler reads; \<open>n_uid\<close> stands for
  the identity of the JavaScript object, so that \<^verbatim>\<open>parent.key === node\<close> is equality
  of \<open>n_uid\<close>.  A field that a node type does not have is \<open>None\<close> (or the empty
  list for \<^verbatim>\<open>params\<close>).
\<close>

datatype estree =
  Estree (n_uid: nat) (n_type: string) (n_name: string) (n_range: node_range)
    (n_computed: bool) (n_key: "estree option") (n_property: "estree option")
    (n_id: "estree option") (n_params: "estree list") (n_label: "estree option")
    (n_callee: "estree option") (n_tag: "estree option")

text \<open>
  The nodes for which \<^verbatim>\<open>parseModule\<close> registers a callback with \<^verbatim>\<open>walk.simple\<close>.
  An exported declaration is a function, a class or a variable declaration with plain
  identifiers as declared names.
\<close>

datatype import_spec_node =
  ImportDefaultSpecifier string
| ImportNamespaceSpecifier string
| ImportSpecifier string string

datatype export_declaration =
  FunctionDeclaration string
| VariableDeclaration "string list"
| ClassDeclaration string

record default_declaration =
  decl_type :: string
  decl_id :: "string option"
  decl_start :: nat

datatype visited_node =
  ImportDeclaration node_range string "import_spec_node list"
| ExportNamedDeclaration node_range "(export_declaration \<times> node_range) option"
    "(string \<times> string) list" "string option"
| ExportDefaultDeclaration node_range default_declaration
| ImportExpression node_range "string option"

text \<open>
  What the bundler sees of a parsed file: the nodes that \<^verbatim>\<open>walk.simple\<close> hands to
  the four callbacks of \<^verbatim>\<open>parseModule\<close>, in call order, and the identifier nodes that
  \<^verbatim>\<open>walk.ancestor\<close> hands to the callback of \<^verbatim>\<open>transformModule\<close>, each with its
  ancestor array (the node itself is the last element).
\<close>

record ast =
  simple_visits :: "visited_node list"
  identifier_visits :: "(estree \<times> estree list) list"

datatype default_type = DefaultDeclaration | DefaultExpression

record moduleInfo =
  filePath :: string
  source :: string
  module_ast :: ast
  static_imports :: "import_site list"
  named :: "named_export list"
  hasDefault :: bool
  defaultNode :: "(node_range \<times> default_declaration) option"
  defaultType :: "default_type option"
  dynamicImports :: "dynamic_import list"
  importedBindings :: "(string \<times> binding) list"
  moduleId :: "string option"

text \<open>JavaScript truthiness of a value that is a string or \<^verbatim>\<open>undefined\<close>/\<^verbatim>\<open>null\<close>.\<close>

definition truthy :: "string option \<Rightarrow> bool" where
  "truthy v = (case v of None \<Rightarrow> False | Some s \<Rightarrow> s \<noteq> [])"


section \<open>Parser (parser.js)\<close>

text \<open>
  The four callbacks that \<^verbatim>\<open>parseModule\<close> passes to \<^verbatim>\<open>walk.simple\<close>, as one step
  on the record under construction.  A re-export (\<^verbatim>\<open>export { x } from './m.js'\<close>) is an
  \<^verbatim>\<open>ExportNamedDeclaration\<close> with specifiers and a source: it adds named exports that
  carry \<open>exp_reexportSource\<close>, and nothing else.
\<close>

definition importSpecifier :: "import_spec_node \<Rightarrow> import_specifier" where
  "importSpecifier spec =
     (case spec of
        ImportDefaultSpecifier l \<Rightarrow> \<lparr>spec_local = l, spec_imported = ''default''\<rparr>
      | ImportNamespaceSpecifier l \<Rightarrow> \<lparr>spec_local = l, spec_imported = ''*''\<rparr>
      | ImportSpecifier l i \<Rightarrow> \<lparr>spec_local = l, spec_imported = i\<rparr>)"

definition declaredExports :: "node_range \<Rightarrow> export_declaration \<times> node_range \<Rightarrow> named_export list" where
  "declaredExports node d =
     (case d of (decl, declRange) \<Rightarrow>
        (case decl of
           FunctionDeclaration name \<Rightarrow>
              [\<lparr>exp_local = name, exp_exported = name, exp_node = node,
                exp_declarationNode = Some declRange, exp_reexportSource = None\<rparr>]
         | VariableDeclaration names \<Rightarrow>
              map (\<lambda>name. \<lparr>exp_local = name, exp_exported = name, exp_node = node,
                             exp_declarationNode = Some declRange, exp_reexportSource = None\<rparr>)
                names
         | ClassDeclaration name \<Rightarrow>
              [\<lparr>exp_local = name, exp_exported = name, exp_node = node,
                exp_declarationNode = Some declRange, exp_reexportSource = None\<rparr>]))"

definition visitNode :: "visited_node \<Rightarrow> moduleInfo \<Rightarrow> moduleInfo" where
  "visitNode n m =
     (case n of
        ImportDeclaration node src specs \<Rightarrow>
          let specifiers = map importSpecifier specs in
          m\<lparr>static_imports :=
               static_imports m
               @ [\<lparr>imp_source = src, imp_specifiers = specifiers, imp_node = node,
                    imp_resolvedPath = None\<rparr>],
             importedBindings :=
               fold (\<lambda>spec bindings.
                       AList.update (spec_local spec)
                         \<lparr>modulePath = src, importedName = spec_imported spec\<rparr> bindings)
                 specifiers (importedBindings m)\<rparr>
      | ExportNamedDeclaration node decl specs src \<Rightarrow>
          m\<lparr>named :=
               named m
               @ (case decl of None \<Rightarrow> [] | Some d \<Rightarrow> declaredExports node d)
               @ map (\<lambda>(l, e). \<lparr>exp_local = l, exp_exported = e, exp_node = node,
                                 exp_declarationNode = None, exp_reexportSource = src\<rparr>)
                   specs\<rparr>
      | ExportDefaultDeclaration node decl \<Rightarrow>
          m\<lparr>hasDefault := True,
             defaultNode := Some (node, decl),
             defaultType :=
               Some (if decl_type decl = ''FunctionDeclaration'' \<or> decl_type decl = ''ClassDeclaration''
                     then DefaultDeclaration else DefaultExpression)\<rparr>
      | ImportExpression node src \<Rightarrow>
          m\<lparr>dynamicImports :=
               dynamicImports m
               @ [\<lparr>dyn_source = src, dyn_node = node, dyn_resolvedPath = None\<rparr>]\<rparr>)"

definition emptyModule :: "string \<Rightarrow> string \<Rightarrow> ast \<Rightarrow> moduleInfo" where
  "emptyModule file src tree =
     \<lparr>filePath = file, source = src, module_ast = tree, static_imports = [], named = [],
      hasDefault = False, defaultNode = None, defaultType = None, dynamicImports = [],
      importedBindings = [], moduleId = None\<rparr>"

definition extractModule :: "string \<Rightarrow> string \<Rightarrow> ast \<Rightarrow> moduleInfo" where
  "extractModule file src tree = fold visitNode (simple_visits tree) (emptyModule file src tree)"

text \<open>
  \<^verbatim>\<open>parseModule(filePath)\<close>: \<^verbatim>\<open>fs.readFileSync\<close> throws unless the path is a regular
  file; \<^verbatim>\<open>acorn.parse\<close> is a parameter that may throw as well.
\<close>

definition parseModule ::
  "(string \<Rightarrow> error + ast) \<Rightarrow> snapshot \<Rightarrow> string \<Rightarrow> error + moduleInfo" where
  "parseModule acornParse snap file =
     (case map_of snap file of
        Some (File src) \<Rightarrow>
          (case acornParse src of
             Inl e \<Rightarrow> Inl e
           | Inr tree \<Rightarrow> Inr (extractModule file src tree))
      | Some Directory \<Rightarrow> Inl (Error ''EISDIR: illegal operation on a directory, read'')
      | None \<Rightarrow> Inl (Error ''ENOENT: no such file or directory''))"

section \<open>Graph builder (dependency-graph.js)\<close>

text \<open>
  The two inner loops of \<^verbatim>\<open>buildDependencyGraph\<close>: each import is resolved against
  the directory of the importing file, the resolved path is stored on the import, and it
  is queued unless the graph has it.  A dynamic import without a literal source is kept
  as it is.
\<close>

fun followStaticImports ::
  "node_path \<Rightarrow> snapshot \<Rightarrow> (string \<times> moduleInfo) list \<Rightarrow> string \<Rightarrow> import_site list
     \<Rightarrow> string list \<Rightarrow> error + (import_site list \<times> string list)" where
  "followStaticImports P snap graph file [] queue = Inr ([], queue)"
| "followStaticImports P snap graph file (imp # imps) queue =
     (case resolveModule (path_resolve P) snap (imp_source imp) (path_dirname P file) of
        Inl e \<Rightarrow> Inl e
      | Inr resolved \<Rightarrow>
          (case followStaticImports P snap graph file imps
                  (if \<not> map_has graph resolved then queue @ [resolved] else queue) of
             Inl e \<Rightarrow> Inl e
           | Inr (imps', queue') \<Rightarrow> Inr (imp\<lparr>imp_resolvedPath := Some resolved\<rparr> # imps', queue')))"

fun followDynamicImports ::
  "node_path \<Rightarrow> snapshot \<Rightarrow> (string \<times> moduleInfo) list \<Rightarrow> string \<Rightarrow> dynamic_import list
     \<Rightarrow> string list \<Rightarrow> error + (dynamic_import list \<times> string list)" where
  "followDynamicImports P snap graph file [] queue = Inr ([], queue)"
| "followDynamicImports P snap graph file (dyn # dyns) queue =
     (case dyn_source dyn of
        None \<Rightarrow>
          (case followDynamicImports P snap graph file dyns queue of
             Inl e \<Rightarrow> Inl e
           | Inr (dyns', queue') \<Rightarrow> Inr (dyn # dyns', queue'))
      | Some src \<Rightarrow>
          if src = [] then
            (case followDynamicImports P snap graph file dyns queue of
               Inl e \<Rightarrow> Inl e
             | Inr (dyns', queue') \<Rightarrow> Inr (dyn # dyns', queue'))
          else
            (case resolveModule (path_resolve P) snap src (path_dirname P file) of
               Inl e \<Rightarrow> Inl e
             | Inr resolved \<Rightarrow>
                 (case followDynamicImports P snap graph file dyns
                         (if \<not> map_has graph resolved then queue @ [resolved] else queue) of
                    Inl e \<Rightarrow> Inl e
                  | Inr (dyns', queue') \<Rightarrow>
                      Inr (dyn\<lparr>dyn_resolvedPath := Some resolved\<rparr> # dyns', queue'))))"

text \<open>
  The \<^verbatim>\<open>while (queue.length > 0)\<close> loop.  The module is stored in the graph before its
  imports are resolved; the resolved paths end up on the stored record.
\<close>

function graphLoop ::
  "node_path \<Rightarrow> (string \<Rightarrow> error + ast) \<Rightarrow> snapshot \<Rightarrow> (string \<times> moduleInfo) list \<Rightarrow> string list
     \<Rightarrow> error + (string \<times> moduleInfo) list" where
  "graphLoop P acornParse snap graph [] = Inr graph"
| "graphLoop P acornParse snap graph (file # queue) =
     (if map_has graph file then graphLoop P acornParse snap graph queue
      else
        case parseModule acornParse snap file of
          Inl e \<Rightarrow> Inl e
        | Inr m \<Rightarrow>
            let graph1 = AList.update file m graph in
            (case followStaticImports P snap graph1 file (static_imports m) queue of
               Inl e \<Rightarrow> Inl e
             | Inr (imps, queue1) \<Rightarrow>
                 (case followDynamicImports P snap graph1 file (dynamicImports m) queue1 of
                    Inl e \<Rightarrow> Inl e
                  | Inr (dyns, queue2) \<Rightarrow>
                      graphLoop P acornParse snap
                        (AList.update file (m\<lparr>static_imports := imps, dynamicImports := dyns\<rparr>)
                           graph1)
                        queue2)))"
  by pat_completeness auto

text \<open>
  Termination: a file enters the graph only if the snapshot has it and the graph does
  not, and the snapshot is finite.
\<close>

lemma keys_alist_update: "fst ` set (AList.update k v al) = insert k (fst ` set al)"
  by (induction al) auto

lemma parseModule_in_snapshot:
  assumes "parseModule acornParse snap path = Inr m"
  shows "path \<in> fst ` set snap"
proof -
  from assms obtain src where "map_of snap path = Some (File src)"
    by (auto simp: parseModule_def split: option.splits fs_entry.splits sum.splits)
  then have "(path, File src) \<in> set snap" by (rule map_of_SomeD)
  then show ?thesis by force
qed

lemma graph_measure_grow:
  assumes "path \<in> fst ` set snap" "\<not> map_has graph path"
  shows "card (fst ` set snap - fst ` set (AList.update path m' (AList.update path m graph)))
       < card (fst ` set snap - fst ` set graph)"
proof -
  have "path \<notin> fst ` set graph"
    using assms(2) by (simp add: map_has_def map_of_eq_None_iff)
  then have "fst ` set snap - fst ` set (AList.update path m' (AList.update path m graph))
      \<subset> fst ` set snap - fst ` set graph"
    using assms(1) by (auto simp: keys_alist_update)
  then show ?thesis by (intro psubset_card_mono) auto
qed

termination graphLoop
proof (relation "inv_image (less_than <*lex*> less_than)
    (\<lambda>(P, acornParse, snap, graph, queue).
        (card (fst ` set snap - fst ` set graph), length queue))", goal_cases)
  case 1
  show ?case by (intro wf_inv_image wf_lex_prod wf_less_than)
next
  case 2
  then show ?case by simp
next
  case (3 P acornParse snap graph path queue m graph1 x imps queue1 y dyns queue2)
  from 3(2) have "path \<in> fst ` set snap" by (rule parseModule_in_snapshot)
  from graph_measure_grow [OF this 3(1)] show ?case
    by (simp add: 3(3))
qed

declare graphLoop.simps [simp del]

definition buildDependencyGraph ::
  "node_path \<Rightarrow> (string \<Rightarrow> error + ast) \<Rightarrow> snapshot \<Rightarrow> string \<Rightarrow> error + (string \<times> moduleInfo) list" where
  "buildDependencyGraph P acornParse snap entryPath = graphLoop P acornParse snap [] [entryPath]"
section \<open>Chunk planner (dependency-graph.js)\<close>

record chunk =
  chunk_id :: string
  moduleIds :: "string list"
  entryModuleId :: "string option"
  originalChunks :: "string list"

text \<open>
  An object literal \<^verbatim>\<open>{}\<close> that serves as a dictionary, as far as assignment and
  \<^verbatim>\<open>Object.entries\<close> go.  An assignment to the key \<^verbatim>\<open>__proto__\<close> runs the setter
  that the object inherits from \<^verbatim>\<open>Object.prototype\<close>: the value (the planner stores
  arrays only) becomes the prototype and no own property is made.  Any other key becomes
  an own property, or keeps its place if it is one already.  \<^verbatim>\<open>Object.entries\<close>
  lists the own properties: first those whose key is an array index (a canonical decimal
  numeral below \<open>2\<^sup>3\<^sup>2 - 1\<close>), by ascending index, then the others in the order
  of their creation.
\<close>

record 'v plain_object =
  own_properties :: "(string \<times> 'v) list"
  prototype :: "'v option"

definition emptyObject :: "'v plain_object" where
  "emptyObject = \<lparr>own_properties = [], prototype = None\<rparr>"

definition objectSet :: "string \<Rightarrow> 'v \<Rightarrow> 'v plain_object \<Rightarrow> 'v plain_object" where
  "objectSet k v obj =
     (if k = ''__proto__'' then obj\<lparr>prototype := Some v\<rparr>
      else obj\<lparr>own_properties := AList.update k v (own_properties obj)\<rparr>)"

definition decimalValue :: "string \<Rightarrow> int" where
  "decimalValue s = fold (\<lambda>c n. 10 * n + (of_char c - 48)) s 0"

definition isArrayIndex :: "string \<Rightarrow> bool" where
  "isArrayIndex s =
     (s \<noteq> [] \<and> list_all (\<lambda>c. c \<in> set ''0123456789'') s \<and> (s = ''0'' \<or> hd s \<noteq> CHR ''0'')
      \<and> decimalValue s < 2 ^ 32 - 1)"

definition objectEntries :: "'v plain_object \<Rightarrow> (string \<times> 'v) list" where
  "objectEntries obj =
     sort_key (\<lambda>(k, v). decimalValue k) (filter (\<lambda>(k, v). isArrayIndex k) (own_properties obj))
     @ filter (\<lambda>(k, v). \<not> isArrayIndex k) (own_properties obj)"

record chunkInfo =
  mainChunk :: chunk
  lazyChunks :: "(string \<times> chunk) list"
  chunkGroupMap :: "string list plain_object"
  modules :: "(string \<times> moduleInfo) list"
  dynamicEntryPoints :: "(string \<times> string) list"

text \<open>
  The inner loop \<^verbatim>\<open>for (const imp of info.imports)\<close> of both traversals of
  \<^verbatim>\<open>identifyChunks\<close>: a dependency is pushed unless it is in the set being built
  (\<open>visited\<close>) or in the main chunk (\<open>excluded\<close>).  \<^verbatim>\<open>path.relative\<close> throws a
  TypeError on an import whose \<^verbatim>\<open>resolvedPath\<close> is undefined.
\<close>

fun pushDeps ::
  "node_path \<Rightarrow> string \<Rightarrow> string list \<Rightarrow> string list \<Rightarrow> string list \<Rightarrow> import_site list
     \<Rightarrow> error + string list" where
  "pushDeps P projectRoot excluded visited queue [] = Inr queue"
| "pushDeps P projectRoot excluded visited queue (imp # imps) =
     (case imp_resolvedPath imp of
        None \<Rightarrow> Inl (TypeError ''The to argument must be of type string'')
      | Some p \<Rightarrow>
          let depId = toModuleId P p projectRoot in
          pushDeps P projectRoot excluded visited
            (if depId \<notin> set visited \<and> depId \<notin> set excluded then queue @ [depId] else queue)
            imps)"

text \<open>All module ids that some import of some module of the map leads to.\<close>

definition allDepIds :: "node_path \<Rightarrow> string \<Rightarrow> (string \<times> moduleInfo) list \<Rightarrow> string set" where
  "allDepIds P projectRoot mods =
     (\<Union>(k, info) \<in> set mods. \<Union>imp \<in> set (static_imports info).
        (case imp_resolvedPath imp of None \<Rightarrow> {} | Some p \<Rightarrow> {toModuleId P p projectRoot}))"

text \<open>
  The \<^verbatim>\<open>while (queue.length > 0)\<close> loops of steps 1 and 2: breadth-first over static
  imports.  Step 1 runs it with nothing excluded, step 2 with the main chunk's modules
  excluded.
\<close>

function staticClosure ::
  "node_path \<Rightarrow> string \<Rightarrow> (string \<times> moduleInfo) list \<Rightarrow> string list \<Rightarrow> string list \<Rightarrow> string list
     \<Rightarrow> error + string list" where
  "staticClosure P projectRoot mods excluded visited [] = Inr visited"
| "staticClosure P projectRoot mods excluded visited (modId # queue) =
     (if modId \<in> set visited \<or> modId \<in> set excluded then
        staticClosure P projectRoot mods excluded visited queue
      else
        case map_of mods modId of
          None \<Rightarrow> staticClosure P projectRoot mods excluded (visited @ [modId]) queue
        | Some info \<Rightarrow>
            (case pushDeps P projectRoot excluded (visited @ [modId]) queue (static_imports info) of
               Inl e \<Rightarrow> Inl e
             | Inr queue' \<Rightarrow>
                 staticClosure P projectRoot mods excluded (visited @ [modId]) queue'))"
  by pat_completeness auto

text \<open>Termination: every step visits a new module id or shortens the queue.\<close>

lemma pushDeps_subset:
  "pushDeps P r ex vis q imps = Inr q' \<Longrightarrow>
     set q' \<subseteq> set q \<union> (\<Union>imp \<in> set imps. (case imp_resolvedPath imp of None \<Rightarrow> {} | Some p \<Rightarrow> {toModuleId P p r}))"
proof (induction imps arbitrary: q)
  case Nil
  then show ?case by simp
next
  case (Cons imp imps)
  from Cons.prems obtain p where p: "imp_resolvedPath imp = Some p"
    by (cases "imp_resolvedPath imp") auto
  define q1 where "q1 = (if toModuleId P p r \<notin> set vis \<and> toModuleId P p r \<notin> set ex
                          then q @ [toModuleId P p r] else q)"
  from Cons.prems p have "pushDeps P r ex vis q1 imps = Inr q'"
    by (simp add: Let_def q1_def)
  from Cons.IH [OF this] have "set q' \<subseteq> set q1 \<union> (\<Union>imp \<in> set imps. (case imp_resolvedPath imp of None \<Rightarrow> {} | Some p \<Rightarrow> {toModuleId P p r}))" .
  moreover have "set q1 \<subseteq> set q \<union> {toModuleId P p r}"
    by (auto simp: q1_def)
  ultimately show ?case using p by auto
qed

lemma finite_allDepIds: "finite (allDepIds P r mods)"
  by (auto simp: allDepIds_def split: option.splits)

lemma allDepIds_member:
  "map_of mods modId = Some info \<Longrightarrow>
   (\<Union>imp \<in> set (static_imports info). (case imp_resolvedPath imp of None \<Rightarrow> {} | Some p \<Rightarrow> {toModuleId P p r}))
     \<subseteq> allDepIds P r mods"
  unfolding allDepIds_def by (blast dest: map_of_SomeD)

lemma closure_measure_skip:
  "card ((allDepIds P r mods \<union> set q) - set vis) \<le> card ((allDepIds P r mods \<union> set (m # q)) - set vis)"
  using finite_allDepIds [of P r mods] by (intro card_mono) auto

lemma closure_measure_visit:
  assumes "m \<notin> set vis" "set q' \<subseteq> set q \<union> allDepIds P r mods"
  shows "card ((allDepIds P r mods \<union> set q') - set (vis @ [m]))
       < card ((allDepIds P r mods \<union> set (m # q)) - set vis)"
proof -
  have "(allDepIds P r mods \<union> set q') - set (vis @ [m])
      \<subset> (allDepIds P r mods \<union> set (m # q)) - set vis"
    using assms by auto
  then show ?thesis
    using finite_allDepIds [of P r mods] by (intro psubset_card_mono) auto
qed

lemma closure_measure_push:
  assumes "m \<notin> set vis" "map_of mods m = Some info"
    "pushDeps P r ex (vis @ [m]) q (static_imports info) = Inr q'"
  shows "card ((allDepIds P r mods \<union> set q') - set (vis @ [m]))
       < card ((allDepIds P r mods \<union> set (m # q)) - set vis)"
  using closure_measure_visit [of m vis q' q P r mods]
      pushDeps_subset [OF assms(3)] allDepIds_member [OF assms(2), of P r] assms(1)
  by auto

termination staticClosure
  apply (relation "inv_image (less_than <*lex*> less_than)
    (\<lambda>(P, r, mods, ex, vis, q). (card ((allDepIds P r mods \<union> set q) - set vis), length q))")
  subgoal by (intro wf_inv_image wf_lex_prod wf_less_than)
  subgoal for P r mods ex vis m q
    using closure_measure_skip [of P r mods q vis m] by auto
  subgoal for P r mods ex vis m q
    using closure_measure_visit [of m vis q q P r mods] by auto
  subgoal for P r mods ex vis m q info q'
    using closure_measure_push [of m vis mods info P r ex q q'] by auto
  done

declare staticClosure.simps [simp del]


text \<open>
  \<^verbatim>\<open>splitSharedModules\<close>.  \<open>countModule\<close> is the body of the counting loop: an
  absent module id gets a fresh set, then the chunk id is added to the module's set.
\<close>

definition countModule ::
  "string \<Rightarrow> string \<Rightarrow> (string \<times> string list) list \<Rightarrow> (string \<times> string list) list" where
  "countModule chunkId modId moduleCounts =
     (case map_of moduleCounts modId of
        None \<Rightarrow> AList.update modId (set_add chunkId []) moduleCounts
      | Some chunks \<Rightarrow> AList.update modId (set_add chunkId chunks) moduleCounts)"

definition countModules :: "(string \<times> chunk) list \<Rightarrow> (string \<times> string list) list" where
  "countModules lazy =
     fold (\<lambda>(chunkId, c) moduleCounts. fold (countModule chunkId) (moduleIds c) moduleCounts)
       lazy []"

definition findSharedModules :: "(string \<times> string list) list \<Rightarrow> (string \<times> string list) list" where
  "findSharedModules moduleCounts = filter (\<lambda>(modId, chunks). length chunks \<ge> 2) moduleCounts"

text \<open>\<^verbatim>\<open>groupKey\<close>: the chunk ids sorted (by code unit) and joined with a bar.\<close>

definition groupKey :: "string list \<Rightarrow> string" where
  "groupKey chunkSet = join ''|'' (sort chunkSet)"

record shared_group =
  group_moduleIds :: "string list"
  group_chunkIds :: "string list"

definition addToGroup ::
  "string \<times> string list \<Rightarrow> (string \<times> shared_group) list \<Rightarrow> (string \<times> shared_group) list" where
  "addToGroup entry groups =
     (case entry of (modId, chunkIds) \<Rightarrow>
        let key = groupKey chunkIds in
        case map_of groups key of
          None \<Rightarrow>
            AList.update key \<lparr>group_moduleIds = set_add modId [], group_chunkIds = chunkIds\<rparr> groups
        | Some g \<Rightarrow>
            AList.update key (g\<lparr>group_moduleIds := set_add modId (group_moduleIds g)\<rparr>) groups)"

definition groupSharedModules :: "(string \<times> string list) list \<Rightarrow> (string \<times> shared_group) list" where
  "groupSharedModules sharedModules = fold addToGroup sharedModules []"

text \<open>
  The loop that creates the shared chunks.  \<^verbatim>\<open>[...group.moduleIds][0]\<close> of an empty
  set is \<^verbatim>\<open>undefined\<close>, on which \<^verbatim>\<open>toChunkId\<close> throws.
\<close>

fun createSharedChunks ::
  "(string \<times> shared_group) list \<Rightarrow> (string \<times> chunk) list \<Rightarrow> error + (string \<times> chunk) list" where
  "createSharedChunks [] sharedChunks = Inr sharedChunks"
| "createSharedChunks ((key, g) # groups) sharedChunks =
     (case group_moduleIds g of
        [] \<Rightarrow> Inl (TypeError ''Cannot read properties of undefined (reading replace)'')
      | firstModId # rest \<Rightarrow>
          let sharedChunkId = ''shared_'' @ toChunkId firstModId in
          createSharedChunks groups
            (AList.update sharedChunkId
               \<lparr>chunk_id = sharedChunkId, moduleIds = group_moduleIds g, entryModuleId = None,
                originalChunks = group_chunkIds g\<rparr>
               sharedChunks))"

definition removeSharedModules ::
  "(string \<times> string list) list \<Rightarrow> (string \<times> chunk) list \<Rightarrow> (string \<times> chunk) list" where
  "removeSharedModules sharedModules lazy =
     fold (\<lambda>(chunkId, c) updatedLazyChunks.
             AList.update chunkId
               (c\<lparr>moduleIds := filter (\<lambda>modId. \<not> map_has sharedModules modId) (moduleIds c)\<rparr>)
               updatedLazyChunks)
       lazy []"

definition splitSharedModules ::
  "(string \<times> chunk) list \<Rightarrow> error + ((string \<times> chunk) list \<times> (string \<times> chunk) list)" where
  "splitSharedModules lazy =
     (let moduleCounts = countModules lazy;
          sharedModules = findSharedModules moduleCounts
      in if length sharedModules = 0 then Inr (lazy, [])
         else
           case createSharedChunks (groupSharedModules sharedModules) [] of
             Inl e \<Rightarrow> Inl e
           | Inr sharedChunks \<Rightarrow> Inr (removeSharedModules sharedModules lazy, sharedChunks))"

text \<open>\<^verbatim>\<open>identifyChunks\<close>, step by step.\<close>

definition moduleMap ::
  "node_path \<Rightarrow> string \<Rightarrow> (string \<times> moduleInfo) list \<Rightarrow> (string \<times> moduleInfo) list" where
  "moduleMap P projectRoot graph =
     fold (\<lambda>(absPath, info) mods.
             let modId = toModuleId P absPath projectRoot in
             AList.update modId (info\<lparr>moduleId := Some modId\<rparr>) mods)
       graph []"

definition addDynamicTarget ::
  "node_path \<Rightarrow> string \<Rightarrow> dynamic_import \<Rightarrow> (string \<times> string) list \<Rightarrow> (string \<times> string) list" where
  "addDynamicTarget P projectRoot dyn entryPoints =
     (case dyn_resolvedPath dyn of
        None \<Rightarrow> entryPoints
      | Some p \<Rightarrow>
          if p = [] then entryPoints
          else
            let targetId = toModuleId P p projectRoot;
                chunkId = toChunkId targetId
            in AList.update targetId chunkId entryPoints)"

definition collectDynamicEntryPoints ::
  "node_path \<Rightarrow> string \<Rightarrow> (string \<times> moduleInfo) list \<Rightarrow> (string \<times> string) list" where
  "collectDynamicEntryPoints P projectRoot mods =
     fold (\<lambda>(k, info) entryPoints.
             fold (addDynamicTarget P projectRoot) (dynamicImports info) entryPoints)
       mods []"

fun buildLazyChunks ::
  "node_path \<Rightarrow> string \<Rightarrow> (string \<times> moduleInfo) list \<Rightarrow> string list \<Rightarrow> (string \<times> string) list
     \<Rightarrow> (string \<times> chunk) list \<Rightarrow> error + (string \<times> chunk) list" where
  "buildLazyChunks P projectRoot mods mainModuleIds [] lazy = Inr lazy"
| "buildLazyChunks P projectRoot mods mainModuleIds ((targetModuleId, chunkId) # rest) lazy =
     (case staticClosure P projectRoot mods mainModuleIds [] [targetModuleId] of
        Inl e \<Rightarrow> Inl e
      | Inr chunkModuleIds \<Rightarrow>
          buildLazyChunks P projectRoot mods mainModuleIds rest
            (AList.update chunkId
               \<lparr>chunk_id = chunkId, moduleIds = chunkModuleIds,
                entryModuleId = Some targetModuleId, originalChunks = []\<rparr>
               lazy))"

text \<open>
  Step 4.  \<open>neededChunks\<close> is the inner loop over the shared chunks, in the order of
  the \<^verbatim>\<open>sharedChunks\<close> map, followed by the push of the chunk's own id.  The result
  is assigned to the key \<^verbatim>\<open>chunkId\<close> of the object \<^verbatim>\<open>chunkGroupMap = {}\<close>.
\<close>

definition neededChunks :: "(string \<times> chunk) list \<Rightarrow> string \<Rightarrow> string list" where
  "neededChunks sharedChunks chunkId =
     fold (\<lambda>(sharedId, sharedChunk) needed.
             if chunkId \<in> set (originalChunks sharedChunk) then needed @ [sharedId] else needed)
       sharedChunks []
     @ [chunkId]"

definition buildChunkGroupMap ::
  "(string \<times> chunk) list \<Rightarrow> (string \<times> chunk) list \<Rightarrow> string list plain_object" where
  "buildChunkGroupMap updatedLazyChunks sharedChunks =
     fold (\<lambda>(chunkId, c) groupMap. objectSet chunkId (neededChunks sharedChunks chunkId) groupMap)
       updatedLazyChunks emptyObject"

text \<open>\<^verbatim>\<open>new Map([...updatedLazyChunks, ...sharedChunks])\<close>.\<close>

definition newMap :: "('k \<times> 'v) list \<Rightarrow> ('k \<times> 'v) list" where
  "newMap entries = fold (\<lambda>(k, v) m. AList.update k v m) entries []"

text \<open>
  The loop that stores \<^verbatim>\<open>targetModuleId\<close> and \<^verbatim>\<open>chunkId\<close> on the dynamic-import
  records is left out: no later stage reads the two fields (\<^verbatim>\<open>transformModule\<close> derives
  both again from \<^verbatim>\<open>resolvedPath\<close>).
\<close>

definition identifyChunks ::
  "node_path \<Rightarrow> (string \<times> moduleInfo) list \<Rightarrow> string \<Rightarrow> string \<Rightarrow> error + chunkInfo" where
  "identifyChunks P graph entryPath projectRoot =
     (let entryModuleId = toModuleId P entryPath projectRoot;
          mods = moduleMap P projectRoot graph
      in case staticClosure P projectRoot mods [] [] [entryModuleId] of
           Inl e \<Rightarrow> Inl e
         | Inr mainModuleIds \<Rightarrow>
             let entryPoints = collectDynamicEntryPoints P projectRoot mods in
             case buildLazyChunks P projectRoot mods mainModuleIds entryPoints [] of
               Inl e \<Rightarrow> Inl e
             | Inr lazy \<Rightarrow>
                 (case splitSharedModules lazy of
                    Inl e \<Rightarrow> Inl e
                  | Inr (updatedLazyChunks, sharedChunks) \<Rightarrow>
                      Inr \<lparr>mainChunk =
                             \<lparr>chunk_id = ''main'', moduleIds = mainModuleIds,
                              entryModuleId = None, originalChunks = []\<rparr>,
                           lazyChunks = newMap (updatedLazyChunks @ sharedChunks),
                           chunkGroupMap = buildChunkGroupMap updatedLazyChunks sharedChunks,
                           modules = mods,
                           dynamicEntryPoints = entryPoints\<rparr>))"


section \<open>Patching buffer\<close>

text \<open>
  Modelled from the spec: the range-based patching buffer of section 4.5, which
  \<^verbatim>\<open>transformModule\<close> drives through the magic-string package (not part of the
  bundler's sources).  The model follows that package's chunk list, since the transformer
  relies on what it does when a range is edited twice: the text is a list of adjacent
  chunks, an edit first splits the chunks at both ends of its range, and a chunk that was
  edited to non-empty content cannot be split.  \<^verbatim>\<open>intro\<close> and \<^verbatim>\<open>outro\<close> are left
  out, the transformer never appends or prepends.
\<close>

record ms_chunk =
  c_start :: nat
  c_end :: nat
  c_original :: string
  c_content :: string
  c_edited :: bool

record magic_string =
  ms_original :: string
  ms_chunks :: "ms_chunk list"

definition newMagicString :: "string \<Rightarrow> magic_string" where
  "newMagicString src =
     \<lparr>ms_original = src,
      ms_chunks = [\<lparr>c_start = 0, c_end = length src, c_original = src, c_content = src,
                    c_edited = False\<rparr>]\<rparr>"

definition chunk_edit :: "string \<Rightarrow> ms_chunk \<Rightarrow> ms_chunk" where
  "chunk_edit content c = c\<lparr>c_content := content, c_edited := True\<rparr>"

text \<open>\<^verbatim>\<open>Chunk.split\<close>: both halves of an edited chunk are edited chunks with empty content.\<close>

definition chunk_split :: "nat \<Rightarrow> ms_chunk \<Rightarrow> ms_chunk \<times> ms_chunk" where
  "chunk_split index c =
     (let sliceIndex = index - c_start c;
          originalBefore = take sliceIndex (c_original c);
          originalAfter = drop sliceIndex (c_original c)
      in if c_edited c then
           (c\<lparr>c_end := index, c_original := originalBefore, c_content := []\<rparr>,
            \<lparr>c_start = index, c_end = c_end c, c_original = originalAfter, c_content = [],
             c_edited = True\<rparr>)
         else
           (c\<lparr>c_end := index, c_original := originalBefore, c_content := originalBefore\<rparr>,
            \<lparr>c_start = index, c_end = c_end c, c_original = originalAfter,
             c_content = originalAfter, c_edited = False\<rparr>))"

text \<open>
  \<^verbatim>\<open>_split(index)\<close>: nothing to do when a chunk starts or ends at the index; otherwise
  the chunk that contains the index is split (\<^verbatim>\<open>_splitChunk\<close>).
\<close>

fun splitChunks :: "nat \<Rightarrow> ms_chunk list \<Rightarrow> error + ms_chunk list" where
  "splitChunks index [] = Inr []"
| "splitChunks index (c # cs) =
     (if c_start c < index \<and> index < c_end c then
        (if c_edited c \<and> c_content c \<noteq> [] then
           Inl (Error ''Cannot split a chunk that has already been edited'')
         else (case chunk_split index c of (before, after) \<Rightarrow> Inr (before # after # cs)))
      else
        (case splitChunks index cs of Inl e \<Rightarrow> Inl e | Inr cs' \<Rightarrow> Inr (c # cs')))"

definition ms_split :: "nat \<Rightarrow> magic_string \<Rightarrow> error + magic_string" where
  "ms_split index s =
     (if list_ex (\<lambda>c. c_start c = index \<or> c_end c = index) (ms_chunks s) then Inr s
      else case splitChunks index (ms_chunks s) of
             Inl e \<Rightarrow> Inl e
           | Inr cs \<Rightarrow> Inr (s\<lparr>ms_chunks := cs\<rparr>))"

text \<open>
  The loop of \<^verbatim>\<open>remove\<close>: starting with the chunk that begins at \<open>start\<close>, every
  chunk is emptied, moving to the chunk that begins where the last one ended as long as
  \<open>stop\<close> lies beyond.
\<close>

fun editFrom :: "nat \<Rightarrow> nat \<Rightarrow> ms_chunk list \<Rightarrow> ms_chunk list" where
  "editFrom start stop [] = []"
| "editFrom start stop (c # cs) =
     (if c_start c = start then
        chunk_edit [] c # (if stop > c_end c then editFrom (c_end c) stop cs else cs)
      else c # editFrom start stop cs)"

definition ms_remove :: "nat \<Rightarrow> nat \<Rightarrow> magic_string \<Rightarrow> error + magic_string" where
  "ms_remove start stop s =
     (if start = stop then Inr s
      else if stop > length (ms_original s) then Inl (Error ''Character is out of bounds'')
      else if start > stop then Inl (Error ''end must be greater than start'')
      else
        case ms_split start s of
          Inl e \<Rightarrow> Inl e
        | Inr s1 \<Rightarrow>
            (case ms_split stop s1 of
               Inl e \<Rightarrow> Inl e
             | Inr s2 \<Rightarrow> Inr (s2\<lparr>ms_chunks := editFrom start stop (ms_chunks s2)\<rparr>)))"

text \<open>
  The loop of \<^verbatim>\<open>overwrite\<close>: the chunk that begins at \<open>start\<close> receives the new
  content, the chunks after it up to the one that ends at \<open>stop\<close> are emptied.  Acorn
  ranges have \<open>start \<le> stop\<close>; for a range in the other order the package throws or
  corrupts its chunk list, which the model reports as the throw.
\<close>

fun overwriteFrom :: "nat \<Rightarrow> nat \<Rightarrow> string \<Rightarrow> ms_chunk list \<Rightarrow> ms_chunk list" where
  "overwriteFrom start stop content [] = []"
| "overwriteFrom start stop content (c # cs) =
     (if c_start c = start then
        chunk_edit content c # (if c_end c = stop then cs else editFrom (c_end c) stop cs)
      else c # overwriteFrom start stop content cs)"

definition ms_overwrite :: "nat \<Rightarrow> nat \<Rightarrow> string \<Rightarrow> magic_string \<Rightarrow> error + magic_string" where
  "ms_overwrite start stop content s =
     (if stop > length (ms_original s) then Inl (Error ''end is out of bounds'')
      else if start = stop then Inl (Error ''Cannot overwrite a zero-length range'')
      else
        case ms_split start s of
          Inl e \<Rightarrow> Inl e
        | Inr s1 \<Rightarrow>
            (case ms_split stop s1 of
               Inl e \<Rightarrow> Inl e
             | Inr s2 \<Rightarrow>
                 if start > stop then Inl (Error ''Cannot overwrite across a split point'')
                 else Inr (s2\<lparr>ms_chunks := overwriteFrom start stop content (ms_chunks s2)\<rparr>)))"

definition ms_toString :: "magic_string \<Rightarrow> string" where
  "ms_toString s = concat (map c_content (ms_chunks s))"

section \<open>Module transformer (transformer.js)\<close>

text \<open>\<^verbatim>\<open>String.prototype.trim\<close> on ASCII text.\<close>

definition isSpace :: "char \<Rightarrow> bool" where
  "isSpace c = (c \<in> set [CHR 0x09, CHR 0x0A, CHR 0x0B, CHR 0x0C, CHR 0x0D, CHR 0x20])"

definition trim :: "string \<Rightarrow> string" where
  "trim s = rev (dropWhile isSpace (rev (dropWhile isSpace s)))"

text \<open>
  \<^verbatim>\<open>makeVarName\<close>: a leading \<^verbatim>\<open>./\<close> and a final \<^verbatim>\<open>.js\<close> are dropped, every
  character outside \<^verbatim>\<open>[a-zA-Z0-9]\<close> becomes an underscore, and the result is put
  between two underscores.
\<close>

definition isAlnum :: "char \<Rightarrow> bool" where
  "isAlnum c =
     (c \<in> set (''abcdefghijklmnopqrstuvwxyz'' @ ''ABCDEFGHIJKLMNOPQRSTUVWXYZ'' @ ''0123456789''))"

definition strip_js_extension :: "string \<Rightarrow> string" where
  "strip_js_extension s = (if endsWith s ''.js'' then take (length s - 3) s else s)"

definition makeVarName :: "string \<Rightarrow> string" where
  "makeVarName p =
     ''_'' @ map (\<lambda>c. if isAlnum c then c else CHR ''_'') (strip_js_extension (strip_dot_slash p))
     @ ''_''"

text \<open>A value interpolated into a template literal; \<^verbatim>\<open>undefined\<close> prints its name.\<close>

definition interpolate :: "string option \<Rightarrow> string" where
  "interpolate v = (case v of None \<Rightarrow> ''undefined'' | Some s \<Rightarrow> s)"

definition loadModuleCall :: "string \<Rightarrow> string \<Rightarrow> string" where
  "loadModuleCall varName modId =
     ''var '' @ varName @ '' = loadModule('' @ DQ @ modId @ DQ @ '');''"

text \<open>Sequencing of steps that may throw.\<close>

definition andThen :: "error + 'a \<Rightarrow> ('a \<Rightarrow> error + 'b) \<Rightarrow> error + 'b" where
  "andThen r f = (case r of Inl e \<Rightarrow> Inl e | Inr x \<Rightarrow> f x)"

text \<open>
  Step 1: a variable name for each import source, the first time the source is met, and
  the module id of each import (stored on the import by the source, returned here in
  the order of the imports).
\<close>

fun buildModuleVarNames ::
  "node_path \<Rightarrow> string \<Rightarrow> import_site list \<Rightarrow> (string \<times> string) list
     \<Rightarrow> error + ((string \<times> string) list \<times> string list)" where
  "buildModuleVarNames P projectRoot [] moduleVarNames = Inr (moduleVarNames, [])"
| "buildModuleVarNames P projectRoot (imp # imps) moduleVarNames =
     (case imp_resolvedPath imp of
        None \<Rightarrow> Inl (TypeError ''The to argument must be of type string'')
      | Some p \<Rightarrow>
          let modId = toModuleId P p projectRoot;
              moduleVarNames' =
                (if \<not> map_has moduleVarNames (imp_source imp)
                 then AList.update (imp_source imp) (makeVarName (imp_source imp)) moduleVarNames
                 else moduleVarNames)
          in andThen (buildModuleVarNames P projectRoot imps moduleVarNames')
               (\<lambda>(names, ids). Inr (names, modId # ids)))"

text \<open>
  Step 2: for every import, in order, one \<^verbatim>\<open>loadModule\<close> statement is pushed and the
  declaration is removed from the source.
\<close>

fun removeImports ::
  "(string \<times> string) list \<Rightarrow> (import_site \<times> string) list \<Rightarrow> string list \<Rightarrow> magic_string
     \<Rightarrow> error + (string list \<times> magic_string)" where
  "removeImports moduleVarNames [] loadModuleCalls s = Inr (loadModuleCalls, s)"
| "removeImports moduleVarNames ((imp, modId) # imps) loadModuleCalls s =
     (let varName = interpolate (map_of moduleVarNames (imp_source imp)) in
      andThen (ms_remove (n_start (imp_node imp)) (n_end (imp_node imp)) s)
        (removeImports moduleVarNames imps (loadModuleCalls @ [loadModuleCall varName modId])))"

record export_getter =
  exported :: string
  getter :: string

record transform_state =
  moduleVarNames :: "(string \<times> string) list"
  loadModuleCalls :: "string list"
  exportGetters :: "export_getter list"
  buffer :: magic_string

text \<open>
  Step 3, one named export: the \<^verbatim>\<open>export\<close> keyword before an inline declaration is
  removed, any other export statement is removed as a whole; then the getter is pushed,
  for a re-export after the variable of the other module has been introduced.
\<close>

definition addExportGetter ::
  "node_path \<Rightarrow> string \<Rightarrow> string \<Rightarrow> named_export \<Rightarrow> transform_state \<Rightarrow> transform_state" where
  "addExportGetter P projectRoot file exp st =
     (if truthy (exp_reexportSource exp) then
        (case exp_reexportSource exp of
           None \<Rightarrow> st
         | Some src \<Rightarrow>
             let modId = toModuleId P (path_resolve P (path_dirname P file) src) projectRoot;
                 st1 =
                   (if \<not> map_has (moduleVarNames st) src then
                      st\<lparr>moduleVarNames := AList.update src (makeVarName src) (moduleVarNames st),
                          loadModuleCalls :=
                            loadModuleCalls st @ [loadModuleCall (makeVarName src) modId]\<rparr>
                    else st);
                 varName = interpolate (map_of (moduleVarNames st1) src)
             in st1\<lparr>exportGetters :=
                       exportGetters st1
                       @ [\<lparr>exported = exp_exported exp,
                            getter = ''() => '' @ varName @ ''.'' @ exp_local exp\<rparr>]\<rparr>)
      else
        st\<lparr>exportGetters :=
              exportGetters st
              @ [\<lparr>exported = exp_exported exp, getter = ''() => '' @ exp_local exp\<rparr>]\<rparr>)"

definition transformNamedExport ::
  "node_path \<Rightarrow> string \<Rightarrow> string \<Rightarrow> named_export \<Rightarrow> transform_state \<Rightarrow> error + transform_state" where
  "transformNamedExport P projectRoot file exp st =
     andThen
       (case exp_declarationNode exp of
          Some d \<Rightarrow> ms_remove (n_start (exp_node exp)) (n_start d) (buffer st)
        | None \<Rightarrow> ms_remove (n_start (exp_node exp)) (n_end (exp_node exp)) (buffer st))
       (\<lambda>s. Inr (addExportGetter P projectRoot file exp (st\<lparr>buffer := s\<rparr>)))"

fun transformNamedExports ::
  "node_path \<Rightarrow> string \<Rightarrow> string \<Rightarrow> named_export list \<Rightarrow> transform_state \<Rightarrow> error + transform_state" where
  "transformNamedExports P projectRoot file [] st = Inr st"
| "transformNamedExports P projectRoot file (exp # exps) st =
     andThen (transformNamedExport P projectRoot file exp st)
       (transformNamedExports P projectRoot file exps)"

text \<open>
  The default export.  For a declaration the prefix \<^verbatim>\<open>export default \<close> is removed; when
  the declaration has no name the same range is then overwritten.  For an expression the
  prefix is overwritten.
\<close>

definition DEFAULT_VAR_DECL :: string where
  "DEFAULT_VAR_DECL = ''var __default_export__ = ''"

definition defaultGetter :: export_getter where
  "defaultGetter = \<lparr>exported = ''default'', getter = ''() => __default_export__''\<rparr>"

definition transformDefaultExport :: "moduleInfo \<Rightarrow> transform_state \<Rightarrow> error + transform_state" where
  "transformDefaultExport m st =
     (if hasDefault m then
        (case defaultNode m of
           None \<Rightarrow> Inl (TypeError ''Cannot read properties of null (reading start)'')
         | Some (defNode, decl) \<Rightarrow>
             if defaultType m = Some DefaultDeclaration then
               andThen (ms_remove (n_start defNode) (decl_start decl) (buffer st))
                 (\<lambda>s.
                    if truthy (decl_id decl) then
                      Inr (st\<lparr>exportGetters :=
                                 exportGetters st
                                 @ [\<lparr>exported = ''default'',
                                      getter = ''() => '' @ interpolate (decl_id decl)\<rparr>],
                               buffer := s\<rparr>)
                    else
                      andThen (ms_overwrite (n_start defNode) (decl_start decl) DEFAULT_VAR_DECL s)
                        (\<lambda>s'. Inr (st\<lparr>exportGetters := exportGetters st @ [defaultGetter],
                                         buffer := s'\<rparr>)))
             else
               andThen (ms_overwrite (n_start defNode) (decl_start decl) DEFAULT_VAR_DECL (buffer st))
                 (\<lambda>s. Inr (st\<lparr>exportGetters := exportGetters st @ [defaultGetter],
                               buffer := s\<rparr>)))
      else Inr st)"

text \<open>
  Step 4, the \<^verbatim>\<open>Identifier\<close> callback of \<^verbatim>\<open>walk.ancestor\<close>.  \<open>slot_is\<close> is the
  test \<^verbatim>\<open>parent.key === node\<close> for one of the parent's fields.
\<close>

record replacement =
  r_start :: nat
  r_end :: nat
  r_text :: string

definition slot_is :: "estree option \<Rightarrow> estree \<Rightarrow> bool" where
  "slot_is slot node = (case slot of None \<Rightarrow> False | Some child \<Rightarrow> n_uid child = n_uid node)"

definition params_include :: "estree list \<Rightarrow> estree \<Rightarrow> bool" where
  "params_include ps node = list_ex (\<lambda>p. n_uid p = n_uid node) ps"

definition identifierCallback ::
  "(string \<times> binding) list \<Rightarrow> (string \<times> string) list \<Rightarrow> estree \<Rightarrow> estree list
     \<Rightarrow> replacement option" where
  "identifierCallback bindings names node ancestors =
     (case map_of bindings (n_name node) of
        None \<Rightarrow> None
      | Some b \<Rightarrow>
          if length ancestors < 2 then None
          else
            let parent = ancestors ! (length ancestors - 2) in
            if n_type parent = ''ImportSpecifier'' \<or> n_type parent = ''ImportDefaultSpecifier''
               \<or> n_type parent = ''ImportNamespaceSpecifier'' \<or> n_type parent = ''ImportDeclaration''
            then None
            else if n_type parent = ''ExportSpecifier'' then None
            else if n_type parent = ''Property'' \<and> slot_is (n_key parent) node
                    \<and> \<not> n_computed parent
            then None
            else if n_type parent = ''MemberExpression'' \<and> slot_is (n_property parent) node
                    \<and> \<not> n_computed parent
            then None
            else if n_type parent = ''VariableDeclarator'' \<and> slot_is (n_id parent) node then None
            else if (n_type parent = ''FunctionDeclaration'' \<or> n_type parent = ''ClassDeclaration'')
                    \<and> slot_is (n_id parent) node
            then None
            else if (n_type parent = ''FunctionDeclaration'' \<or> n_type parent = ''FunctionExpression''
                     \<or> n_type parent = ''ArrowFunctionExpression'')
                    \<and> params_include (n_params parent) node
            then None
            else if n_type parent = ''LabeledStatement'' \<and> slot_is (n_label parent) node then None
            else if n_type parent = ''BreakStatement'' \<and> slot_is (n_label parent) node then None
            else if n_type parent = ''ContinueStatement'' \<and> slot_is (n_label parent) node then None
            else
              (case map_of names (modulePath b) of
                 None \<Rightarrow> None
               | Some varName \<Rightarrow>
                   let text =
                         (if importedName b = ''*'' then varName
                          else if importedName b = ''default'' then
                            varName @ ''['' @ DQ @ ''default'' @ DQ @ '']''
                          else varName @ ''.'' @ importedName b);
                       isCallTarget =
                         (n_type parent = ''CallExpression'' \<and> slot_is (n_callee parent) node);
                       isTaggedTemplate =
                         (n_type parent = ''TaggedTemplateExpression'' \<and> slot_is (n_tag parent) node)
                   in Some \<lparr>r_start = n_start (n_range node), r_end = n_end (n_range node),
                            r_text = (if isCallTarget \<or> isTaggedTemplate
                                      then ''(0, '' @ text @ '')'' else text)\<rparr>))"

text \<open>
  The replacements of all visited identifiers, sorted by descending start (the sort is
  stable), are applied one after the other.
\<close>

definition collectReplacements ::
  "(string \<times> binding) list \<Rightarrow> (string \<times> string) list \<Rightarrow> (estree \<times> estree list) list
     \<Rightarrow> replacement list" where
  "collectReplacements bindings names visits =
     sort_key (\<lambda>r. - int (r_start r))
       (List.map_filter (\<lambda>(node, ancestors). identifierCallback bindings names node ancestors) visits)"

fun applyReplacements :: "replacement list \<Rightarrow> magic_string \<Rightarrow> error + magic_string" where
  "applyReplacements [] s = Inr s"
| "applyReplacements (r # rs) s =
     andThen (ms_overwrite (r_start r) (r_end r) (r_text r) s) (applyReplacements rs)"

text \<open>Step 5: every dynamic import with a resolved path becomes a \<^verbatim>\<open>loadChunk\<close> call.\<close>

definition dynamicImportCall :: "string \<Rightarrow> string \<Rightarrow> string" where
  "dynamicImportCall chunkId targetModuleId =
     ''loadChunk('' @ DQ @ chunkId @ DQ @ '').then(loadModule.bind(loadModule, '' @ DQ @
     targetModuleId @ DQ @ ''))''"

fun transformDynamicImports ::
  "node_path \<Rightarrow> string \<Rightarrow> dynamic_import list \<Rightarrow> magic_string \<Rightarrow> error + magic_string" where
  "transformDynamicImports P projectRoot [] s = Inr s"
| "transformDynamicImports P projectRoot (dyn # dyns) s =
     (case dyn_resolvedPath dyn of
        None \<Rightarrow> transformDynamicImports P projectRoot dyns s
      | Some p \<Rightarrow>
          if p = [] then transformDynamicImports P projectRoot dyns s
          else
            let targetModuleId = toModuleId P p projectRoot;
                chunkId = toChunkId targetModuleId
            in andThen
                 (ms_overwrite (n_start (dyn_node dyn)) (n_end (dyn_node dyn))
                    (dynamicImportCall chunkId targetModuleId) s)
                 (transformDynamicImports P projectRoot dyns))"

text \<open>The factory body: the lines joined by an empty line.\<close>

definition getterEntry :: "export_getter \<Rightarrow> string" where
  "getterEntry g = ''    '' @ DQ @ exported g @ DQ @ '': '' @ getter g"

definition buildFactoryBody :: "moduleInfo \<Rightarrow> transform_state \<Rightarrow> string" where
  "buildFactoryBody m st =
     join (NL @ NL)
       ((if length (exportGetters st) > 0 \<or> hasDefault m then
           [''loadModule.markAsESModule(exports);'']
           @ (if length (exportGetters st) > 0 then
                [''loadModule.defineExports(exports, {'' @ NL @
                 join ('','' @ NL) (map getterEntry (exportGetters st)) @ NL @ ''});'']
              else [])
         else [''loadModule.markAsESModule(exports);''])
        @ (if length (loadModuleCalls st) > 0 then [join NL (loadModuleCalls st)] else [])
        @ [trim (ms_toString (buffer st))])"

text \<open>
  \<^verbatim>\<open>transformModule\<close>, up to the state from which the body is built, and as a whole.
\<close>

definition transformSteps :: "node_path \<Rightarrow> string \<Rightarrow> moduleInfo \<Rightarrow> error + transform_state" where
  "transformSteps P projectRoot m =
     andThen (buildModuleVarNames P projectRoot (static_imports m) [])
       (\<lambda>(names, ids).
          andThen (removeImports names (zip (static_imports m) ids) [] (newMagicString (source m)))
            (\<lambda>(calls, s).
               andThen
                 (transformNamedExports P projectRoot (filePath m) (named m)
                    \<lparr>moduleVarNames = names, loadModuleCalls = calls, exportGetters = [],
                     buffer = s\<rparr>)
                 (\<lambda>st.
                    andThen (transformDefaultExport m st)
                      (\<lambda>st.
                         andThen
                           (applyReplacements
                              (collectReplacements (importedBindings m) (moduleVarNames st)
                                 (identifier_visits (module_ast m)))
                              (buffer st))
                           (\<lambda>s.
                              andThen (transformDynamicImports P projectRoot (dynamicImports m) s)
                                (\<lambda>s. Inr (st\<lparr>buffer := s\<rparr>)))))))"

definition transformModule :: "node_path \<Rightarrow> moduleInfo \<Rightarrow> string \<Rightarrow> error + string" where
  "transformModule P m projectRoot =
     andThen (transformSteps P projectRoot m) (\<lambda>st. Inr (buildFactoryBody m st))"

section \<open>Code generator (code-generator.js)\<close>

text \<open>
  \<^verbatim>\<open>indentCode\<close>: every line that is not blank gets the prefix, a blank line becomes
  empty.
\<close>

fun splitOn :: "char \<Rightarrow> string \<Rightarrow> string list" where
  "splitOn sep [] = [[]]"
| "splitOn sep (x # xs) =
     (if x = sep then [] # splitOn sep xs
      else (case splitOn sep xs of [] \<Rightarrow> [[x]] | l # ls \<Rightarrow> (x # l) # ls))"

definition indentCode :: "string \<Rightarrow> string \<Rightarrow> string" where
  "indentCode code prefix =
     join NL (map (\<lambda>line. if trim line \<noteq> [] then prefix @ line else []) (splitOn (CHR 0x0A) code))"

text \<open>
  An emitted file.  Its text is made of fixed lines (comments, the loader and the
  lazy-loading runtime, the envelope of a chunk file) and of the parts kept here: the
  chunk ids a chunk file announces in its envelope, the factories in the order of their
  registry entries (module id and indented body, the key and the body of
  \<^verbatim>\<open>"<module id>": (module, exports, loadModule) => { ... }\<close>), and for the entry
  bundle the chunk-group table (the \<^verbatim>\<open>Object.entries\<close> of the planner's object, only
  when there are lazy chunks) and the module id of the kick-off call.
\<close>

record emitted_file =
  filename :: string
  announcedChunkIds :: "string list"
  factories :: "(string \<times> string) list"
  chunkGroupTable :: "(string \<times> string list) list option"
  entryCall :: "string option"

text \<open>
  The loops over the module ids of a chunk: \<^verbatim>\<open>modules.get\<close> of an unknown id is
  \<^verbatim>\<open>undefined\<close>, on which \<^verbatim>\<open>transformModule\<close> throws.
\<close>

fun emitFactories ::
  "node_path \<Rightarrow> string \<Rightarrow> (string \<times> moduleInfo) list \<Rightarrow> string \<Rightarrow> string list
     \<Rightarrow> error + (string \<times> string) list" where
  "emitFactories P projectRoot mods prefix [] = Inr []"
| "emitFactories P projectRoot mods prefix (modId # rest) =
     (case map_of mods modId of
        None \<Rightarrow> Inl (TypeError ''Cannot read properties of undefined (reading source)'')
      | Some info \<Rightarrow>
          andThen (transformModule P info projectRoot)
            (\<lambda>transformed.
               andThen (emitFactories P projectRoot mods prefix rest)
                 (\<lambda>fs. Inr ((modId, indentCode transformed prefix) # fs))))"

definition generateMainBundle ::
  "node_path \<Rightarrow> chunk \<Rightarrow> string list plain_object \<Rightarrow> (string \<times> moduleInfo) list \<Rightarrow> string
     \<Rightarrow> bool \<Rightarrow> error + emitted_file" where
  "generateMainBundle P main groupMap mods projectRoot hasLazyChunks =
     (let mainModuleIds = moduleIds main;
          entryModId = (case mainModuleIds of [] \<Rightarrow> None | first # rest \<Rightarrow> Some first)
      in andThen (emitFactories P projectRoot mods ''    '' mainModuleIds)
           (\<lambda>fs. Inr \<lparr>filename = ''main.js'', announcedChunkIds = [], factories = fs,
                       chunkGroupTable =
                         (if hasLazyChunks then Some (objectEntries groupMap) else None),
                       entryCall = Some (interpolate entryModId)\<rparr>))"

definition generateLazyChunk ::
  "node_path \<Rightarrow> string \<Rightarrow> chunk \<Rightarrow> (string \<times> moduleInfo) list \<Rightarrow> string \<Rightarrow> error + emitted_file" where
  "generateLazyChunk P chunkId c mods projectRoot =
     andThen (emitFactories P projectRoot mods ''      '' (moduleIds c))
       (\<lambda>fs. Inr \<lparr>filename = chunkId @ ''.js'', announcedChunkIds = [chunkId], factories = fs,
                   chunkGroupTable = None, entryCall = None\<rparr>)"

fun generateLazyChunks ::
  "node_path \<Rightarrow> (string \<times> chunk) list \<Rightarrow> (string \<times> moduleInfo) list \<Rightarrow> string
     \<Rightarrow> error + emitted_file list" where
  "generateLazyChunks P [] mods projectRoot = Inr []"
| "generateLazyChunks P ((chunkId, c) # rest) mods projectRoot =
     andThen (generateLazyChunk P chunkId c mods projectRoot)
       (\<lambda>b. andThen (generateLazyChunks P rest mods projectRoot) (\<lambda>bs. Inr (b # bs)))"

definition generateBundles :: "node_path \<Rightarrow> chunkInfo \<Rightarrow> string \<Rightarrow> error + emitted_file list" where
  "generateBundles P info projectRoot =
     (let hasLazyChunks = length (lazyChunks info) > 0 in
      andThen
        (generateMainBundle P (mainChunk info) (chunkGroupMap info) (modules info) projectRoot
           hasLazyChunks)
        (\<lambda>main.
           andThen (generateLazyChunks P (lazyChunks info) (modules info) projectRoot)
             (\<lambda>chunks. Inr (main # chunks))))"

text \<open>The pipeline of \<^verbatim>\<open>bundler.js\<close>: graph, chunks, bundles.\<close>

definition runBundler ::
  "node_path \<Rightarrow> (string \<Rightarrow> error + ast) \<Rightarrow> snapshot \<Rightarrow> string \<Rightarrow> string \<Rightarrow> error + emitted_file list" where
  "runBundler P acornParse snap entryPath projectRoot =
     andThen (buildDependencyGraph P acornParse snap entryPath)
       (\<lambda>graph.
          andThen (identifyChunks P graph entryPath projectRoot)
            (\<lambda>info. generateBundles P info projectRoot))"

text \<open>The module ids that have a factory somewhere in the emitted files, file by file.\<close>

definition emittedModuleIds :: "emitted_file list \<Rightarrow> string list" where
  "emittedModuleIds bundles = concat (map (\<lambda>b. map fst (factories b)) bundles)"

definition factoryBody :: "emitted_file list \<Rightarrow> string \<Rightarrow> string option" where
  "factoryBody files modId = map_of (concat (map factories files)) modId"

definition fileContents :: "emitted_file list \<Rightarrow> (string \<times> string list) list" where
  "fileContents files = map (\<lambda>f. (filename f, map fst (factories f))) files"

section \<open>The module loader of the entry bundle\<close>

text \<open>
  The function \<^verbatim>\<open>loadModule\<close> that \<^verbatim>\<open>generateMainBundle\<close> emits, with the registry
  and the cache as state:
  \<^verbatim>\<open>
  function loadModule(moduleId) {
    var cachedModule = moduleCache[moduleId];
    if (cachedModule !== undefined) { return cachedModule.exports; }
    var module = moduleCache[moduleId] = { exports: {} };
    moduleRegistry[moduleId](module, module.exports, loadModule);
    return module.exports;
  }
  \<close>
  A factory is what it does to the loader's state: it calls \<^verbatim>\<open>loadModule\<close>, defines
  properties on the exports object it was given, or throws.  The module object of an id
  is the cache entry of that id.  \<open>invoked\<close> is a log of the factory calls, which the
  JavaScript does not keep.  \<open>None\<close> means that the recursion budget was used up; an
  outcome is the thrown error or the returned exports, with the state left behind.
\<close>

datatype statement = Load string | Define string string | Throw string

record module_object =
  m_exports :: "(string \<times> string) list"

record runtime =
  moduleRegistry :: "(string \<times> statement list) list"
  moduleCache :: "(string \<times> module_object) list"
  invoked :: "string list"

text \<open>
  One key of \<^verbatim>\<open>loadModule.defineExports(exports, definition)\<close>: the getter is defined
  unless the exports object has the key already.
\<close>

definition defineExport :: "string \<Rightarrow> string \<Rightarrow> string \<Rightarrow> runtime \<Rightarrow> runtime" where
  "defineExport self k v rt =
     (case map_of (moduleCache rt) self of
        None \<Rightarrow> rt
      | Some m \<Rightarrow>
          if map_has (m_exports m) k then rt
          else
            rt\<lparr>moduleCache :=
                 AList.update self (m\<lparr>m_exports := AList.update k v (m_exports m)\<rparr>)
                   (moduleCache rt)\<rparr>)"

definition currentExports :: "runtime \<Rightarrow> string \<Rightarrow> (string \<times> string) list" where
  "currentExports rt modId = (case map_of (moduleCache rt) modId of None \<Rightarrow> [] | Some m \<Rightarrow> m_exports m)"

fun loadModule ::
    "nat \<Rightarrow> string \<Rightarrow> runtime \<Rightarrow> ((error + (string \<times> string) list) \<times> runtime) option"
  and runFactory ::
    "nat \<Rightarrow> string \<Rightarrow> statement list \<Rightarrow> runtime \<Rightarrow> ((error + unit) \<times> runtime) option" where
  "loadModule 0 modId rt = None"
| "loadModule (Suc n) modId rt =
     (case map_of (moduleCache rt) modId of
        Some cachedModule \<Rightarrow> Some (Inr (m_exports cachedModule), rt)
      | None \<Rightarrow>
          let rt1 = rt\<lparr>moduleCache := AList.update modId \<lparr>m_exports = []\<rparr> (moduleCache rt)\<rparr> in
          (case map_of (moduleRegistry rt1) modId of
             None \<Rightarrow> Some (Inl (TypeError ''moduleRegistry[moduleId] is not a function''), rt1)
           | Some factory \<Rightarrow>
               (case runFactory n modId factory (rt1\<lparr>invoked := invoked rt1 @ [modId]\<rparr>) of
                  None \<Rightarrow> None
                | Some (Inl e, rt2) \<Rightarrow> Some (Inl e, rt2)
                | Some (Inr u, rt2) \<Rightarrow> Some (Inr (currentExports rt2 modId), rt2))))"
| "runFactory n self [] rt = Some (Inr (), rt)"
| "runFactory n self (Load dep # rest) rt =
     (case loadModule n dep rt of
        None \<Rightarrow> None
      | Some (Inl e, rt') \<Rightarrow> Some (Inl e, rt')
      | Some (Inr ex, rt') \<Rightarrow> runFactory n self rest rt')"
| "runFactory n self (Define k v # rest) rt = runFactory n self rest (defineExport self k v rt)"
| "runFactory n self (Throw msg # rest) rt = Some (Inl (Error msg), rt)"

text \<open>The ids that are registered and not yet cached: each can still run its factory once.\<close>

definition pendingModules :: "runtime \<Rightarrow> string set" where
  "pendingModules rt = fst ` set (moduleRegistry rt) - fst ` set (moduleCache rt)"

text \<open>The log is sound when no factory was logged twice and every logged id is cached.\<close>

definition onceEach :: "runtime \<Rightarrow> bool" where
  "onceEach rt = (distinct (invoked rt) \<and> set (invoked rt) \<subseteq> fst ` set (moduleCache rt))"

text \<open>
  What a call of the loader may do to the state: the registry stays, cached ids stay
  cached, and a sound log stays sound.
\<close>

definition evolves :: "runtime \<Rightarrow> runtime \<Rightarrow> bool" where
  "evolves rt rt' =
     (moduleRegistry rt' = moduleRegistry rt
      \<and> fst ` set (moduleCache rt) \<subseteq> fst ` set (moduleCache rt')
      \<and> (onceEach rt \<longrightarrow> onceEach rt'))"


section \<open>Concrete inputs\<close>

text \<open>
  A POSIX instance of the platform's path functions, for absolute paths below the
  project root and specifiers of the form \<^verbatim>\<open>./name\<close>, and small projects on which
  the functions above are run.
\<close>

definition posix_dirname :: "string \<Rightarrow> string" where
  "posix_dirname p = rev (drop 1 (dropWhile (\<lambda>c. c \<noteq> CHR ''/'') (rev p)))"

definition posixPath :: node_path where
  "posixPath =
     \<lparr>path_resolve = (\<lambda>fromDir specifier. fromDir @ drop 1 specifier),
      path_relative = (\<lambda>fromDir to. drop (Suc (length fromDir)) to),
      path_dirname = posix_dirname,
      path_sep = CHR ''/''\<rparr>"

definition demoSnap :: snapshot where
  "demoSnap = [(''/p/src'', Directory), (''/p/src/a.js'', File ''export const a = 1;''),
               (''/p/src/lib'', Directory), (''/p/src/lib/index.js'', File [])]"

text \<open>A module record with the given static and dynamic imports (specifier, resolved path).\<close>

definition plainModule :: "string \<Rightarrow> (string \<times> string) list \<Rightarrow> (string \<times> string) list \<Rightarrow> moduleInfo" where
  "plainModule path statics dynamics =
     \<lparr>filePath = path, source = [],
      module_ast = \<lparr>simple_visits = [], identifier_visits = []\<rparr>,
      static_imports =
        map (\<lambda>(specifier, resolved).
               \<lparr>imp_source = specifier, imp_specifiers = [],
                imp_node = \<lparr>n_start = 0, n_end = 0\<rparr>, imp_resolvedPath = Some resolved\<rparr>) statics,
      named = [], hasDefault = False, defaultNode = None, defaultType = None,
      dynamicImports =
        map (\<lambda>(specifier, resolved).
               \<lparr>dyn_source = Some specifier, dyn_node = \<lparr>n_start = 0, n_end = 0\<rparr>,
                dyn_resolvedPath = Some resolved\<rparr>) dynamics,
      importedBindings = [], moduleId = None\<rparr>"

text \<open>
  Two lazy chunks share \<^verbatim>\<open>z.js\<close> and \<^verbatim>\<open>b.js\<close>, which both import in this order.
\<close>

definition graphUnsorted :: "(string \<times> moduleInfo) list" where
  "graphUnsorted =
     [(''/p/index.js'', plainModule ''/p/index.js'' [] [(''./a.js'', ''/p/a.js''), (''./c.js'', ''/p/c.js'')]),
      (''/p/a.js'', plainModule ''/p/a.js'' [(''./z.js'', ''/p/z.js''), (''./b.js'', ''/p/b.js'')] []),
      (''/p/c.js'', plainModule ''/p/c.js'' [(''./z.js'', ''/p/z.js''), (''./b.js'', ''/p/b.js'')] []),
      (''/p/z.js'', plainModule ''/p/z.js'' [] []),
      (''/p/b.js'', plainModule ''/p/b.js'' [] [])]"

text \<open>
  Three lazy chunks: \<^verbatim>\<open>l1.js\<close> imports \<^verbatim>\<open>z.js\<close> then \<^verbatim>\<open>a.js\<close>, \<^verbatim>\<open>l2.js\<close> imports
  \<^verbatim>\<open>z.js\<close>, \<^verbatim>\<open>l3.js\<close> imports \<^verbatim>\<open>a.js\<close>.
\<close>

definition graphTwoShared :: "(string \<times> moduleInfo) list" where
  "graphTwoShared =
     [(''/p/index.js'', plainModule ''/p/index.js'' []
         [(''./l1.js'', ''/p/l1.js''), (''./l2.js'', ''/p/l2.js''), (''./l3.js'', ''/p/l3.js'')]),
      (''/p/l1.js'', plainModule ''/p/l1.js'' [(''./z.js'', ''/p/z.js''), (''./a.js'', ''/p/a.js'')] []),
      (''/p/l2.js'', plainModule ''/p/l2.js'' [(''./z.js'', ''/p/z.js'')] []),
      (''/p/l3.js'', plainModule ''/p/l3.js'' [(''./a.js'', ''/p/a.js'')] []),
      (''/p/z.js'', plainModule ''/p/z.js'' [] []),
      (''/p/a.js'', plainModule ''/p/a.js'' [] [])]"

text \<open>
  Two lazy chunks without shared modules, one of them for the file \<^verbatim>\<open>/p/__proto__\<close>
  (a file without extension, which the resolver finds under its own name).
\<close>

definition graphProto :: "(string \<times> moduleInfo) list" where
  "graphProto =
     [(''/p/index.js'', plainModule ''/p/index.js'' []
         [(''./__proto__'', ''/p/__proto__''), (''./a.js'', ''/p/a.js'')]),
      (''/p/__proto__'', plainModule ''/p/__proto__'' [] []),
      (''/p/a.js'', plainModule ''/p/a.js'' [] [])]"

text \<open>
  Syntax trees are written down as acorn-walk presents them: \<open>leaf\<close> is a node without
  the optional fields, \<open>tableAcorn\<close> a parser that knows the sources of one project.
\<close>

definition SQ :: string where
  "SQ = [CHR 0x27]"

definition leaf :: "nat \<Rightarrow> string \<Rightarrow> string \<Rightarrow> nat \<Rightarrow> nat \<Rightarrow> estree" where
  "leaf uid ty name start stop =
     Estree uid ty name \<lparr>n_start = start, n_end = stop\<rparr> False None None None [] None None None"

definition tableAcorn :: "(string \<times> ast) list \<Rightarrow> string \<Rightarrow> error + ast" where
  "tableAcorn table src =
     (case map_of table src of None \<Rightarrow> Inl (Error ''SyntaxError'') | Some tree \<Rightarrow> Inr tree)"

text \<open>
  A project whose entry imports from \<^verbatim>\<open>./m.js\<close> in two declarations:
  \<^verbatim>\<open>
  import { a } from './m.js';
  import { b } from './m.js';
  console.log(a, b);
  \<close>
\<close>

definition twiceIndexSource :: string where
  "twiceIndexSource =
     ''import { a } from '' @ SQ @ ''./m.js'' @ SQ @ '';'' @ NL @
     ''import { b } from '' @ SQ @ ''./m.js'' @ SQ @ '';'' @ NL @
     ''console.log(a, b);'' @ NL"

definition twiceIndexAst :: ast where
  "twiceIndexAst =
     (let program = leaf 0 ''Program'' [] 0 75;
          stmt = leaf 1 ''ExpressionStatement'' [] 56 74;
          console = leaf 3 ''Identifier'' ''console'' 56 63;
          logName = leaf 4 ''Identifier'' ''log'' 64 67;
          member = Estree 2 ''MemberExpression'' [] \<lparr>n_start = 56, n_end = 67\<rparr> False None
                     (Some logName) None [] None None None;
          a = leaf 6 ''Identifier'' ''a'' 68 69;
          b = leaf 7 ''Identifier'' ''b'' 71 72;
          call = Estree 5 ''CallExpression'' [] \<lparr>n_start = 56, n_end = 73\<rparr> False None None
                   None [] None (Some member) None
      in \<lparr>simple_visits =
             [ImportDeclaration \<lparr>n_start = 0, n_end = 27\<rparr> ''./m.js'' [ImportSpecifier ''a'' ''a''],
              ImportDeclaration \<lparr>n_start = 28, n_end = 55\<rparr> ''./m.js'' [ImportSpecifier ''b'' ''b'']],
           identifier_visits =
             [(console, [program, stmt, call, member, console]),
              (a, [program, stmt, call, a]),
              (b, [program, stmt, call, b])]\<rparr>)"

definition twiceMSource :: string where
  "twiceMSource = ''export const a = 1;'' @ NL @ ''export const b = 2;'' @ NL"

definition twiceMAst :: ast where
  "twiceMAst =
     \<lparr>simple_visits =
        [ExportNamedDeclaration \<lparr>n_start = 0, n_end = 19\<rparr>
           (Some (VariableDeclaration [''a''], \<lparr>n_start = 7, n_end = 19\<rparr>)) [] None,
         ExportNamedDeclaration \<lparr>n_start = 20, n_end = 39\<rparr>
           (Some (VariableDeclaration [''b''], \<lparr>n_start = 27, n_end = 39\<rparr>)) [] None],
      identifier_visits = []\<rparr>"

definition twiceAcorn :: "string \<Rightarrow> error + ast" where
  "twiceAcorn = tableAcorn [(twiceIndexSource, twiceIndexAst), (twiceMSource, twiceMAst)]"

definition twiceSnap :: snapshot where
  "twiceSnap =
     [(''/p'', Directory), (''/p/index.js'', File twiceIndexSource), (''/p/m.js'', File twiceMSource)]"

text \<open>
  A project whose entry imports two files dynamically, \<^verbatim>\<open>a.b.js\<close> and \<^verbatim>\<open>a/b.js\<close>:
  \<^verbatim>\<open>
  import('./a.b.js');
  import('./a/b.js');
  \<close>
\<close>

definition clashIndexSource :: string where
  "clashIndexSource =
     ''import('' @ SQ @ ''./a.b.js'' @ SQ @ '');'' @ NL @
     ''import('' @ SQ @ ''./a/b.js'' @ SQ @ '');'' @ NL"

definition clashIndexAst :: ast where
  "clashIndexAst =
     \<lparr>simple_visits =
        [ImportExpression \<lparr>n_start = 0, n_end = 18\<rparr> (Some ''./a.b.js''),
         ImportExpression \<lparr>n_start = 20, n_end = 38\<rparr> (Some ''./a/b.js'')],
      identifier_visits = []\<rparr>"

definition clashFirstSource :: string where
  "clashFirstSource = ''export const x = 1;'' @ NL"

definition clashFirstAst :: ast where
  "clashFirstAst =
     \<lparr>simple_visits =
        [ExportNamedDeclaration \<lparr>n_start = 0, n_end = 19\<rparr>
           (Some (VariableDeclaration [''x''], \<lparr>n_start = 7, n_end = 19\<rparr>)) [] None],
      identifier_visits = []\<rparr>"

definition clashSecondSource :: string where
  "clashSecondSource = ''export const y = 2;'' @ NL"

definition clashSecondAst :: ast where
  "clashSecondAst =
     \<lparr>simple_visits =
        [ExportNamedDeclaration \<lparr>n_start = 0, n_end = 19\<rparr>
           (Some (VariableDeclaration [''y''], \<lparr>n_start = 7, n_end = 19\<rparr>)) [] None],
      identifier_visits = []\<rparr>"

definition clashAcorn :: "string \<Rightarrow> error + ast" where
  "clashAcorn =
     tableAcorn [(clashIndexSource, clashIndexAst), (clashFirstSource, clashFirstAst),
                 (clashSecondSource, clashSecondAst)]"

definition clashSnap :: snapshot where
  "clashSnap =
     [(''/p'', Directory), (''/p/index.js'', File clashIndexSource),
      (''/p/a.b.js'', File clashFirstSource), (''/p/a'', Directory),
      (''/p/a/b.js'', File clashSecondSource)]"

text \<open>
  A module that imports \<open>add\<close> and declares a function with a parameter of that name:
  \<^verbatim>\<open>
  import { add } from './m.js';
  function f(add) { return add; }
  \<close>
  The one identifier that acorn-walk hands to the callback is the \<open>add\<close> after
  \<^verbatim>\<open>return\<close>.
\<close>

definition shadowSource :: string where
  "shadowSource =
     ''import { add } from '' @ SQ @ ''./m.js'' @ SQ @ '';'' @ NL @
     ''function f(add) { return add; }'' @ NL"

definition shadowParam :: estree where
  "shadowParam = leaf 3 ''Identifier'' ''add'' 41 44"

definition shadowUse :: estree where
  "shadowUse = leaf 6 ''Identifier'' ''add'' 55 58"

definition shadowAncestors :: "estree list" where
  "shadowAncestors =
     [leaf 0 ''Program'' [] 0 62,
      Estree 1 ''FunctionDeclaration'' [] \<lparr>n_start = 30, n_end = 61\<rparr> False None None
        (Some (leaf 2 ''Identifier'' ''f'' 39 40)) [shadowParam] None None None,
      leaf 4 ''BlockStatement'' [] 46 61,
      leaf 5 ''ReturnStatement'' [] 48 59,
      shadowUse]"

definition shadowAst :: ast where
  "shadowAst =
     \<lparr>simple_visits =
        [ImportDeclaration \<lparr>n_start = 0, n_end = 29\<rparr> ''./m.js'' [ImportSpecifier ''add'' ''add'']],
      identifier_visits = [(shadowUse, shadowAncestors)]\<rparr>"

definition shadowModule :: moduleInfo where
  "shadowModule =
     (let m = extractModule ''/p/index.js'' shadowSource shadowAst in
      m\<lparr>static_imports :=
           map (\<lambda>imp. imp\<lparr>imp_resolvedPath := Some ''/p/m.js''\<rparr>) (static_imports m)\<rparr>)"

text \<open>
  Two registered modules that load each other, before any call and after
  \<^verbatim>\<open>loadModule("./a.js")\<close> has returned.
\<close>

definition cycleRuntime :: runtime where
  "cycleRuntime =
     \<lparr>moduleRegistry =
        [(''./a.js'', [Load ''./b.js'', Define ''a'' ''() => a'']),
         (''./b.js'', [Load ''./a.js'', Define ''b'' ''() => b''])],
      moduleCache = [], invoked = []\<rparr>"

definition cycleLoaded :: runtime where
  "cycleLoaded =
     cycleRuntime\<lparr>moduleCache :=
                     [(''./a.js'', \<lparr>m_exports = [(''a'', ''() => a'')]\<rparr>),
                      (''./b.js'', \<lparr>m_exports = [(''b'', ''() => b'')]\<rparr>)],
                   invoked := [''./a.js'', ''./b.js'']\<rparr>"

section \<open>The specification's wording, for comparison\<close>

text \<open>
  The specification names a shared chunk after its first member in sorted order, and
  lists the shared chunks of a chunk group in the order of their ids.
\<close>

definition firstInSortedOrder :: "string list \<Rightarrow> string option" where
  "firstInSortedOrder ms = (case sort ms of [] \<Rightarrow> None | m # rest \<Rightarrow> Some m)"

definition sharedIdFromSorted :: "chunk \<Rightarrow> string option" where
  "sharedIdFromSorted c = map_option (\<lambda>m. ''shared_'' @ toChunkId m) (firstInSortedOrder (moduleIds c))"

definition chunkGroupInIdOrder :: "(string \<times> chunk) list \<Rightarrow> string \<Rightarrow> string list" where
  "chunkGroupInIdOrder chunks L =
     sort (map fst (filter (\<lambda>(k, c). entryModuleId c = None \<and> L \<in> set (originalChunks c)) chunks))
     @ [L]"

text \<open>A shared chunk carries the id that its first member (in the set's own order) gives.\<close>

definition namedAfterFirst :: "string \<times> chunk \<Rightarrow> bool" where
  "namedAfterFirst e =
     (case e of (k, c) \<Rightarrow>
        (case moduleIds c of
           [] \<Rightarrow> False
         | firstModId # rest \<Rightarrow> k = ''shared_'' @ toChunkId firstModId \<and> chunk_id c = k))"

text \<open>
  An occurrence that lies inside a function one of whose parameters is an identifier of
  the same name refers to that parameter (or to a binding further inside), never to an
  import of the module: it is not a free reference to the imported name.
\<close>

definition isFunctionNode :: "estree \<Rightarrow> bool" where
  "isFunctionNode p =
     (n_type p = ''FunctionDeclaration'' \<or> n_type p = ''FunctionExpression''
      \<or> n_type p = ''ArrowFunctionExpression'')"

definition boundByEnclosingParameter :: "estree \<Rightarrow> estree list \<Rightarrow> bool" where
  "boundByEnclosingParameter node ancestors =
     list_ex (\<lambda>f. isFunctionNode f
                   \<and> list_ex (\<lambda>p. n_type p = ''Identifier'' \<and> n_name p = n_name node
                                    \<and> n_uid p \<noteq> n_uid node) (n_params f))
       (butlast ancestors)"

section \<open>Re-exports: concrete inputs and notions\<close>




























section \<open>Well-formed buffers and edits\<close>

text \<open>
  The chunks of a buffer lie one after the other, from \<open>a\<close> to \<open>b\<close>, none of them
  empty.
\<close>

fun contiguous :: "nat \<Rightarrow> ms_chunk list \<Rightarrow> nat \<Rightarrow> bool" where
  "contiguous a [] b = (a = b)"
| "contiguous a (c # cs) b = (c_start c = a \<and> a < c_end c \<and> contiguous (c_end c) cs b)"

text \<open>
  A buffer is sound for a set of overwritten ranges when its chunks cover the source and
  every chunk that holds replacement text lies inside one of the ranges.
\<close>

definition soundBuffer :: "(nat \<times> nat) set \<Rightarrow> magic_string \<Rightarrow> bool" where
  "soundBuffer R s =
     (contiguous 0 (ms_chunks s) (length (ms_original s))
      \<and> (\<forall>c \<in> set (ms_chunks s). c_edited c \<and> c_content c \<noteq> [] \<longrightarrow>
            (\<exists>(a, b) \<in> R. a \<le> c_start c \<and> c_end c \<le> b)))"

text \<open>
  The prefix from \<open>ds\<close> to \<open>dd\<close> has been overwritten with the declaration of the
  default variable: the chunk that begins at \<open>ds\<close> carries it, the other chunks before
  \<open>dd\<close> are empty, and a chunk ends at \<open>dd\<close>.
\<close>

definition prefixPatched :: "nat \<Rightarrow> nat \<Rightarrow> magic_string \<Rightarrow> bool" where
  "prefixPatched ds dd s =
     ((\<exists>c \<in> set (ms_chunks s). c_start c = ds \<and> c_edited c \<and> c_content c = DEFAULT_VAR_DECL)
      \<and> (\<forall>c \<in> set (ms_chunks s). ds < c_start c \<and> c_start c < dd \<longrightarrow>
            c_edited c \<and> c_content c = [])
      \<and> (\<exists>c \<in> set (ms_chunks s). c_end c = dd))"

text \<open>
  What the buffer prints for the range from \<open>a\<close> to \<open>b\<close>, when chunks begin at
  \<open>a\<close> and end at \<open>b\<close>.
\<close>

definition renderedRange :: "nat \<Rightarrow> nat \<Rightarrow> magic_string \<Rightarrow> string option" where
  "renderedRange a b s =
     (if list_ex (\<lambda>c. c_start c = a) (ms_chunks s) \<and> list_ex (\<lambda>c. c_end c = b) (ms_chunks s)
      then Some (concat (map c_content
                   (filter (\<lambda>c. a \<le> c_start c \<and> c_start c < b) (ms_chunks s))))
      else None)"

text \<open>
  A chunk that \<^verbatim>\<open>_split(i)\<close> has made: one of the halves of a chunk around \<open>i\<close> that
  could be split.  The buffer \<open>s'\<close> refines \<open>s\<close> at \<open>i\<close> when it has the boundaries
  of \<open>s\<close>, all its chunks with replacement text, and apart from chunks of \<open>s\<close> only
  such halves.
\<close>

definition halfOf :: "nat \<Rightarrow> ms_chunk list \<Rightarrow> ms_chunk \<Rightarrow> bool" where
  "halfOf i cs c' =
     (\<exists>c \<in> set cs. c_start c < i \<and> i < c_end c \<and> \<not> (c_edited c \<and> c_content c \<noteq> [])
        \<and> (c' = fst (chunk_split i c) \<or> c' = snd (chunk_split i c)))"

definition refined :: "nat \<Rightarrow> magic_string \<Rightarrow> magic_string \<Rightarrow> bool" where
  "refined i s s' =
     (ms_original s' = ms_original s
      \<and> c_start ` set (ms_chunks s) \<subseteq> c_start ` set (ms_chunks s')
      \<and> c_end ` set (ms_chunks s) \<subseteq> c_end ` set (ms_chunks s')
      \<and> (\<forall>c' \<in> set (ms_chunks s'). c' \<in> set (ms_chunks s) \<or> halfOf i (ms_chunks s) c')
      \<and> (\<forall>c \<in> set (ms_chunks s). c_edited c \<and> c_content c \<noteq> [] \<longrightarrow> c \<in> set (ms_chunks s')))"

text \<open>Two ranges that are the same or do not overlap.\<close>

definition compatible :: "nat \<times> nat \<Rightarrow> nat \<times> nat \<Rightarrow> bool" where
  "compatible r q = (r = q \<or> snd r \<le> fst q \<or> snd q \<le> fst r)"

definition apart :: "nat \<times> nat \<Rightarrow> nat \<times> nat \<Rightarrow> bool" where
  "apart r q = (snd r \<le> fst q \<or> snd q \<le> fst r)"

text \<open>
  The ranges that the transformer edits in a module: removed (import declarations, export
  keywords and statements) and overwritten (identifiers named like an imported binding,
  dynamic imports with a resolved path).
\<close>

definition exportRange :: "named_export \<Rightarrow> nat \<times> nat" where
  "exportRange exp =
     (case exp_declarationNode exp of
        Some d \<Rightarrow> (n_start (exp_node exp), n_start d)
      | None \<Rightarrow> (n_start (exp_node exp), n_end (exp_node exp)))"

definition removedRanges :: "moduleInfo \<Rightarrow> (nat \<times> nat) list" where
  "removedRanges m =
     map (\<lambda>imp. (n_start (imp_node imp), n_end (imp_node imp))) (static_imports m)
     @ map exportRange (named m)"

definition identifierRanges :: "moduleInfo \<Rightarrow> (nat \<times> nat) list" where
  "identifierRanges m =
     map (\<lambda>(node, ancestors). (n_start (n_range node), n_end (n_range node)))
       (filter (\<lambda>(node, ancestors). map_of (importedBindings m) (n_name node) \<noteq> None)
          (identifier_visits (module_ast m)))"

definition dynamicRanges :: "moduleInfo \<Rightarrow> (nat \<times> nat) list" where
  "dynamicRanges m =
     map (\<lambda>dyn. (n_start (dyn_node dyn), n_end (dyn_node dyn)))
       (filter (\<lambda>dyn. truthy (dyn_resolvedPath dyn)) (dynamicImports m))"

text \<open>
  A set of overwritten ranges is orderly, next to the prefix from \<open>ds\<close> to \<open>dd\<close> and
  in a source of length \<open>n\<close>, when each of them is a non-empty range of the source, lies
  apart from the prefix, and any two of them are the same or apart.  A buffer is patched
  when it is sound for these ranges and the prefix, and the prefix has been overwritten.
\<close>

definition orderly :: "(nat \<times> nat) set \<Rightarrow> nat \<Rightarrow> nat \<Rightarrow> nat \<Rightarrow> bool" where
  "orderly Q ds dd n =
     (ds < dd \<and> (\<forall>r \<in> Q. fst r < snd r \<and> snd r \<le> n \<and> apart r (ds, dd)
                    \<and> (\<forall>q \<in> Q. compatible r q)))"

definition patched :: "(nat \<times> nat) set \<Rightarrow> nat \<Rightarrow> nat \<Rightarrow> nat \<Rightarrow> magic_string \<Rightarrow> bool" where
  "patched Q ds dd n s =
     (soundBuffer (insert (ds, dd) Q) s \<and> prefixPatched ds dd s \<and> length (ms_original s) = n)"

text \<open>
  The edits of a module with a default export are well-formed when every import has its
  resolved path (the graph builder stores it), the removed ranges lie in the source, the
  prefix of the default export is a non-empty range of the source, and the overwritten
  ranges are orderly.  The ranges are those of the syntax tree, where two nodes are
  nested or apart.
\<close>

definition wellFormedEdits :: "moduleInfo \<Rightarrow> nat \<Rightarrow> nat \<Rightarrow> bool" where
  "wellFormedEdits m ds dd =
     ((\<forall>imp \<in> set (static_imports m). imp_resolvedPath imp \<noteq> None)
      \<and> (\<forall>(a, b) \<in> set (removedRanges m). a \<le> b \<and> b \<le> length (source m))
      \<and> dd \<le> length (source m)
      \<and> orderly (set (identifierRanges m @ dynamicRanges m)) ds dd (length (source m)))"

text \<open>A default export without a name of its own: an anonymous declaration or an expression.\<close>

definition anonymousDefault :: "moduleInfo \<Rightarrow> node_range \<Rightarrow> default_declaration \<Rightarrow> bool" where
  "anonymousDefault m defNode decl =
     (hasDefault m \<and> defaultNode m = Some (defNode, decl)
      \<and> (defaultType m = Some DefaultExpression
          \<or> (defaultType m = Some DefaultDeclaration \<and> \<not> truthy (decl_id decl))))"

text \<open>
  A module with an anonymous default export that uses an import:
  \<^verbatim>\<open>
  import { a } from './m.js';
  export default function () { return a; }
  \<close>
\<close>

definition anonSource :: string where
  "anonSource =
     ''import { a } from '' @ SQ @ ''./m.js'' @ SQ @ '';'' @ NL @
     ''export default function () { return a; }''"

definition anonAst :: ast where
  "anonAst =
     (let program = leaf 0 ''Program'' [] 0 68;
          importDecl = leaf 1 ''ImportDeclaration'' [] 0 27;
          importSpec = leaf 2 ''ImportSpecifier'' [] 9 10;
          importName = leaf 3 ''Identifier'' ''a'' 9 10;
          exportDecl = leaf 4 ''ExportDefaultDeclaration'' [] 28 68;
          func = leaf 5 ''FunctionDeclaration'' [] 43 68;
          block = leaf 6 ''BlockStatement'' [] 55 68;
          ret = leaf 7 ''ReturnStatement'' [] 57 66;
          a = leaf 8 ''Identifier'' ''a'' 64 65
      in \<lparr>simple_visits =
             [ImportDeclaration \<lparr>n_start = 0, n_end = 27\<rparr> ''./m.js'' [ImportSpecifier ''a'' ''a''],
              ExportDefaultDeclaration \<lparr>n_start = 28, n_end = 68\<rparr>
                \<lparr>decl_type = ''FunctionDeclaration'', decl_id = None, decl_start = 43\<rparr>],
           identifier_visits =
             [(importName, [program, importDecl, importSpec, importName]),
              (a, [program, exportDecl, func, block, ret, a])]\<rparr>)"

definition anonModule :: moduleInfo where
  "anonModule =
     (let m = extractModule ''/p/index.js'' anonSource anonAst in
      m\<lparr>static_imports :=
           map (\<lambda>imp. imp\<lparr>imp_resolvedPath := Some ''/p/m.js''\<rparr>) (static_imports m)\<rparr>)"

text \<open>
  A module whose default export is an expression in parentheses:
  \<^verbatim>\<open>
  import { add } from './m.js';
  export default (add);
  \<close>
  The parser keeps no node for the parentheses: the declaration of the export statement
  is the identifier inside them, which begins after the opening parenthesis.
\<close>

definition parenSource :: string where
  "parenSource =
     ''import { add } from '' @ SQ @ ''./m.js'' @ SQ @ '';'' @ NL @
     ''export default (add);''"

definition parenAst :: ast where
  "parenAst =
     (let program = leaf 0 ''Program'' [] 0 51;
          exportDecl = leaf 1 ''ExportDefaultDeclaration'' [] 30 51;
          add = leaf 2 ''Identifier'' ''add'' 46 49
      in \<lparr>simple_visits =
             [ImportDeclaration \<lparr>n_start = 0, n_end = 29\<rparr> ''./m.js'' [ImportSpecifier ''add'' ''add''],
              ExportDefaultDeclaration \<lparr>n_start = 30, n_end = 51\<rparr>
                \<lparr>decl_type = ''Identifier'', decl_id = None, decl_start = 46\<rparr>],
           identifier_visits = [(add, [program, exportDecl, add])]\<rparr>)"

definition parenModule :: moduleInfo where
  "parenModule =
     (let m = extractModule ''/p/index.js'' parenSource parenAst in
      m\<lparr>static_imports :=
           map (\<lambda>imp. imp\<lparr>imp_resolvedPath := Some ''/p/m.js''\<rparr>) (static_imports m)\<rparr>)"

section \<open>Sequencing\<close>

lemma andThen_Inr [simp]: "andThen (Inr x) f = f x"
  by (simp add: andThen_def)

lemma andThen_Inl [simp]: "andThen (Inl e) f = Inl e"
  by (simp add: andThen_def)



section \<open>Resolver: candidates in order\<close>

lemma isFile_existsSync: "isFile snap p \<Longrightarrow> existsSync snap p"
  by (auto simp: isFile_def existsSync_def split: option.splits)

lemma tryExtensions_find:
  "tryExtensions snap basePath exts = List.find (isFile snap) (map (\<lambda>ext. basePath @ ext) exts)"
  by (induction exts) (auto simp: Let_def isFile_existsSync)

text \<open>
  C8.  A specifier that does not begin with a dot fails with the bare-specifier error.
  Otherwise, with \<open>base\<close> the specifier resolved against the referrer directory, the
  candidates are \<open>base\<close>, \<open>base.js\<close>, \<open>base.json\<close>, \<open>base/index.js\<close>; the result
  is the first one that is a regular file, and when none is, the unresolved-module error
  whose message lists all four.
\<close>

theorem resolveModule_candidates:
  "(\<not> startsWith specifier ''.'' \<longrightarrow>
      resolveModule pathResolve snap specifier fromDir =
        Inl (Error (''Cannot resolve bare specifier '' @ DQ @ specifier @ DQ @
                    ''. Only relative paths are supported.'')))
   \<and> (startsWith specifier ''.'' \<longrightarrow>
      (let base = pathResolve fromDir specifier;
           candidates = [base, base @ ''.js'', base @ ''.json'', base @ ''/index.js'']
       in (\<forall>i < length candidates.
             isFile snap (candidates ! i) \<and> (\<forall>j < i. \<not> isFile snap (candidates ! j)) \<longrightarrow>
             resolveModule pathResolve snap specifier fromDir = Inr (candidates ! i))
          \<and> ((\<forall>c \<in> set candidates. \<not> isFile snap c) \<longrightarrow>
             resolveModule pathResolve snap specifier fromDir =
               Inl (Error (''Cannot resolve module '' @ DQ @ specifier @ DQ @ '' from '' @ DQ @
                           fromDir @ DQ @ ''. Tried:'' @ NL @
                           join NL (map (\<lambda>c. ''  '' @ c) candidates))))))"
proof (intro conjI impI)
  assume "\<not> startsWith specifier ''.''"
  then show "resolveModule pathResolve snap specifier fromDir =
        Inl (Error (''Cannot resolve bare specifier '' @ DQ @ specifier @ DQ @
                    ''. Only relative paths are supported.''))"
    by (simp add: resolveModule_def)
next
  assume dot: "startsWith specifier ''.''"
  define base where "base = pathResolve fromDir specifier"
  define candidates where "candidates = [base, base @ ''.js'', base @ ''.json'', base @ ''/index.js'']"
  have cand: "map (\<lambda>ext. base @ ext) EXTENSIONS = candidates"
    by (simp add: EXTENSIONS_def candidates_def)
  have first: "resolveModule pathResolve snap specifier fromDir = Inr (candidates ! i)"
    if "i < length candidates" "isFile snap (candidates ! i)" "\<forall>j < i. \<not> isFile snap (candidates ! j)" for i
  proof -
    have "List.find (isFile snap) candidates = Some (candidates ! i)"
      using that by (auto simp: find_Some_iff)
    then show ?thesis
      using dot by (simp add: resolveModule_def tryExtensions_find cand base_def [symmetric])
  qed
  have none: "resolveModule pathResolve snap specifier fromDir =
               Inl (Error (''Cannot resolve module '' @ DQ @ specifier @ DQ @ '' from '' @ DQ @
                           fromDir @ DQ @ ''. Tried:'' @ NL @
                           join NL (map (\<lambda>c. ''  '' @ c) candidates)))"
    if "\<forall>c \<in> set candidates. \<not> isFile snap c"
  proof -
    have "List.find (isFile snap) candidates = None"
      using that by (simp add: find_None_iff)
    moreover have "map (\<lambda>ext. ''  '' @ base @ ext) EXTENSIONS = map (\<lambda>c. ''  '' @ c) candidates"
      by (simp add: EXTENSIONS_def candidates_def)
    ultimately show ?thesis
      using dot by (simp add: resolveModule_def tryExtensions_find cand base_def [symmetric])
  qed
  show "let base = pathResolve fromDir specifier;
           candidates = [base, base @ ''.js'', base @ ''.json'', base @ ''/index.js'']
       in (\<forall>i < length candidates.
             isFile snap (candidates ! i) \<and> (\<forall>j < i. \<not> isFile snap (candidates ! j)) \<longrightarrow>
             resolveModule pathResolve snap specifier fromDir = Inr (candidates ! i))
          \<and> ((\<forall>c \<in> set candidates. \<not> isFile snap c) \<longrightarrow>
             resolveModule pathResolve snap specifier fromDir =
               Inl (Error (''Cannot resolve module '' @ DQ @ specifier @ DQ @ '' from '' @ DQ @
                           fromDir @ DQ @ ''. Tried:'' @ NL @
                           join NL (map (\<lambda>c. ''  '' @ c) candidates))))"
    unfolding Let_def base_def [symmetric] candidates_def [symmetric]
    using first none by blast
qed

text \<open>
  The theorem at four specifiers in \<open>demoSnap\<close>: a bare one, one found with the
  \<^verbatim>\<open>.js\<close> extension, a directory found through \<^verbatim>\<open>/index.js\<close>, and one that no
  candidate matches.
\<close>

theorem resolveModule_candidates_witness:
  "resolveModule (path_resolve posixPath) demoSnap ''lodash'' ''/p/src'' =
     Inl (Error (''Cannot resolve bare specifier '' @ DQ @ ''lodash'' @ DQ @
                 ''. Only relative paths are supported.''))
   \<and> resolveModule (path_resolve posixPath) demoSnap ''./a'' ''/p/src'' = Inr ''/p/src/a.js''
   \<and> resolveModule (path_resolve posixPath) demoSnap ''./lib'' ''/p/src'' = Inr ''/p/src/lib/index.js''
   \<and> resolveModule (path_resolve posixPath) demoSnap ''./zz'' ''/p/src'' =
       Inl (Error (''Cannot resolve module '' @ DQ @ ''./zz'' @ DQ @ '' from '' @ DQ @
                   ''/p/src'' @ DQ @ ''. Tried:'' @ NL @
                   join NL [''  /p/src/zz'', ''  /p/src/zz.js'', ''  /p/src/zz.json'', ''  /p/src/zz/index.js'']))"
  using resolveModule_candidates [of "''lodash''" "path_resolve posixPath" demoSnap "''/p/src''"]
    resolveModule_candidates [of "''./a''" "path_resolve posixPath" demoSnap "''/p/src''"]
    resolveModule_candidates [of "''./lib''" "path_resolve posixPath" demoSnap "''/p/src''"]
    resolveModule_candidates [of "''./zz''" "path_resolve posixPath" demoSnap "''/p/src''"]
  by (simp add: Let_def posixPath_def isFile_def demoSnap_def All_less_Suc startsWith_def)

section \<open>Chunk planner: shared chunks and chunk groups\<close>

lemma set_alist_update: "set (AList.update k v al) \<subseteq> insert (k, v) (set al)"
  by (induction al) auto

lemma set_newMap_fold:
  "set (fold (\<lambda>(k, v) m. AList.update k v m) entries acc) \<subseteq> set acc \<union> set entries"
proof (induction entries arbitrary: acc)
  case Nil
  then show ?case by simp
next
  case (Cons e entries)
  obtain k v where e: "e = (k, v)" by (cases e)
  have "set (fold (\<lambda>(k, v) m. AList.update k v m) entries (AList.update k v acc))
          \<subseteq> set (AList.update k v acc) \<union> set entries"
    by (rule Cons.IH)
  also have "\<dots> \<subseteq> insert (k, v) (set acc) \<union> set entries"
    using set_alist_update [of k v acc] by auto
  finally show ?case by (auto simp: e)
qed

lemma set_newMap: "set (newMap entries) \<subseteq> set entries"
  using set_newMap_fold [of entries "[]"] by (simp add: newMap_def)

lemma createSharedChunks_named:
  "createSharedChunks groups acc = Inr sharedChunks \<Longrightarrow>
   \<forall>e \<in> set acc. namedAfterFirst e \<Longrightarrow> \<forall>e \<in> set sharedChunks. namedAfterFirst e"
proof (induction groups arbitrary: acc)
  case Nil
  then show ?case by simp
next
  case (Cons kg groups)
  obtain key g where kg: "kg = (key, g)" by (cases kg)
  from Cons.prems(1) kg obtain firstModId rest where ms: "group_moduleIds g = firstModId # rest"
    by (cases "group_moduleIds g") auto
  define sid where "sid = ''shared_'' @ toChunkId firstModId"
  define c where "c = \<lparr>chunk_id = sid, moduleIds = group_moduleIds g, entryModuleId = None,
                originalChunks = group_chunkIds g\<rparr>"
  from Cons.prems(1) have run: "createSharedChunks groups (AList.update sid c acc) = Inr sharedChunks"
    by (simp add: kg ms Let_def sid_def c_def)
  have "namedAfterFirst (sid, c)"
    by (simp add: namedAfterFirst_def c_def ms sid_def)
  with Cons.prems(2) have "\<forall>e \<in> set (AList.update sid c acc). namedAfterFirst e"
    using set_alist_update [of sid c acc] by auto
  from Cons.IH [OF run this] show ?case .
qed

lemma buildLazyChunks_entry:
  "buildLazyChunks P r mods mainIds entryPoints acc = Inr lazy \<Longrightarrow>
   \<forall>(k, c) \<in> set acc. entryModuleId c \<noteq> None \<Longrightarrow> \<forall>(k, c) \<in> set lazy. entryModuleId c \<noteq> None"
proof (induction entryPoints arbitrary: acc)
  case Nil
  then show ?case by simp
next
  case (Cons tc entryPoints)
  obtain t cid where tc: "tc = (t, cid)" by (cases tc)
  from Cons.prems(1) tc obtain ids where
    ids: "staticClosure P r mods mainIds [] [t] = Inr ids"
    by (cases "staticClosure P r mods mainIds [] [t]") auto
  define c where "c = \<lparr>chunk_id = cid, moduleIds = ids, entryModuleId = Some t, originalChunks = []\<rparr>"
  from Cons.prems(1) have run: "buildLazyChunks P r mods mainIds entryPoints (AList.update cid c acc) = Inr lazy"
    by (simp add: tc ids c_def)
  have "entryModuleId c \<noteq> None" by (simp add: c_def)
  with Cons.prems(2) have "\<forall>(k, c) \<in> set (AList.update cid c acc). entryModuleId c \<noteq> None"
    using set_alist_update [of cid c acc] by auto
  from Cons.IH [OF run this] show ?case .
qed

lemma removeSharedModules_fold_entry:
  "\<forall>(k, c) \<in> set lazy. entryModuleId c \<noteq> None \<Longrightarrow> \<forall>(k, c) \<in> set acc. entryModuleId c \<noteq> None \<Longrightarrow>
   \<forall>(k, c) \<in> set (fold (\<lambda>(chunkId, c) updatedLazyChunks.
             AList.update chunkId
               (c\<lparr>moduleIds := filter (\<lambda>modId. \<not> map_has sharedModules modId) (moduleIds c)\<rparr>)
               updatedLazyChunks) lazy acc). entryModuleId c \<noteq> None"
proof (induction lazy arbitrary: acc)
  case Nil
  then show ?case by simp
next
  case (Cons kc lazy)
  obtain k c where kc: "kc = (k, c)" by (cases kc)
  define c' where "c' = c\<lparr>moduleIds := filter (\<lambda>modId. \<not> map_has sharedModules modId) (moduleIds c)\<rparr>"
  have "entryModuleId c' \<noteq> None" using Cons.prems(1) by (simp add: c'_def kc)
  with Cons.prems(2) have acc: "\<forall>(k, c) \<in> set (AList.update k c' acc). entryModuleId c \<noteq> None"
    using set_alist_update [of k c' acc] by auto
  have "\<forall>(k, c) \<in> set lazy. entryModuleId c \<noteq> None" using Cons.prems(1) by simp
  from Cons.IH [OF this acc] show ?case by (simp add: kc c'_def)
qed

lemma removeSharedModules_entry:
  "\<forall>(k, c) \<in> set lazy. entryModuleId c \<noteq> None \<Longrightarrow>
   \<forall>(k, c) \<in> set (removeSharedModules sharedModules lazy). entryModuleId c \<noteq> None"
  unfolding removeSharedModules_def by (rule removeSharedModules_fold_entry) simp_all

lemma splitSharedModules_parts:
  assumes "splitSharedModules lazy = Inr (updated, shared)"
    and "\<forall>(k, c) \<in> set lazy. entryModuleId c \<noteq> None"
  shows "\<forall>(k, c) \<in> set updated. entryModuleId c \<noteq> None"
    and "\<forall>e \<in> set shared. namedAfterFirst e"
proof -
  define sm where "sm = findSharedModules (countModules lazy)"
  show "\<forall>(k, c) \<in> set updated. entryModuleId c \<noteq> None"
  proof (cases "sm = []")
    case True
    with assms show ?thesis by (simp add: splitSharedModules_def Let_def sm_def)
  next
    case False
    with assms(1) have "updated = removeSharedModules sm lazy"
      by (auto simp: splitSharedModules_def Let_def sm_def split: sum.splits)
    then show ?thesis using removeSharedModules_entry [OF assms(2), of sm] by simp
  qed
  show "\<forall>e \<in> set shared. namedAfterFirst e"
  proof (cases "sm = []")
    case True
    with assms show ?thesis by (simp add: splitSharedModules_def Let_def sm_def)
  next
    case False
    with assms(1) have "createSharedChunks (groupSharedModules sm) [] = Inr shared"
      by (auto simp: splitSharedModules_def Let_def sm_def split: sum.splits)
    from createSharedChunks_named [OF this] show ?thesis by simp
  qed
qed

text \<open>
  C2, as the code has it.  Every shared chunk that the planner returns (the chunks without
  an entry module) has at least one member, and its id is \<open>shared_\<close> followed by the
  derived chunk id of its first member in the order in which the members were collected.
\<close>

theorem shared_chunk_named_after_first_member:
  assumes "identifyChunks P graph entryPath projectRoot = Inr r"
    and "(k, c) \<in> set (lazyChunks r)" and "entryModuleId c = None"
  shows "moduleIds c \<noteq> [] \<and> chunk_id c = ''shared_'' @ toChunkId (hd (moduleIds c)) \<and> k = chunk_id c"
proof -
  define mods where "mods = moduleMap P projectRoot graph"
  from assms(1) obtain mainIds lazy updated shared where
    lazy: "buildLazyChunks P projectRoot mods mainIds (collectDynamicEntryPoints P projectRoot mods) [] = Inr lazy"
    and split: "splitSharedModules lazy = Inr (updated, shared)"
    and r: "lazyChunks r = newMap (updated @ shared)"
    by (auto simp: identifyChunks_def Let_def mods_def split: sum.splits)
  have "\<forall>(k, c) \<in> set lazy. entryModuleId c \<noteq> None"
    using buildLazyChunks_entry [OF lazy] by simp
  from splitSharedModules_parts [OF split this]
  have u: "\<forall>(k, c) \<in> set updated. entryModuleId c \<noteq> None"
    and s: "\<forall>e \<in> set shared. namedAfterFirst e" .
  from assms(2) r have "(k, c) \<in> set updated \<union> set shared"
    using set_newMap [of "updated @ shared"] by auto
  with u assms(3) have "(k, c) \<in> set shared" by auto
  with s have "namedAfterFirst (k, c)" by blast
  then show ?thesis
    by (auto simp: namedAfterFirst_def split: list.splits)
qed

text \<open>
  C2 as stated fails on \<open>graphUnsorted\<close>: the shared chunk holds \<^verbatim>\<open>./z.js\<close> and
  \<^verbatim>\<open>./b.js\<close> in this order and is called \<^verbatim>\<open>shared_z_js\<close>, while its first member in
  sorted order, \<^verbatim>\<open>./b.js\<close>, would give \<^verbatim>\<open>shared_b_js\<close>.
\<close>

theorem shared_chunk_sorted_name_counterexample:
  "map_sum id (\<lambda>r. map (\<lambda>(k, c). (k, moduleIds c, sharedIdFromSorted c))
                      (filter (\<lambda>(k, c). entryModuleId c = None) (lazyChunks r)))
     (identifyChunks posixPath graphUnsorted ''/p/index.js'' ''/p'')
   = Inr [(''shared_z_js'', [''./z.js'', ''./b.js''], Some ''shared_b_js'')]"
  by code_simp

text \<open>The theorem at the shared chunk of \<open>graphUnsorted\<close>.\<close>

theorem shared_chunk_named_after_first_member_witness:
  "map_sum id (\<lambda>r. filter (\<lambda>(k, c). entryModuleId c = None) (lazyChunks r))
     (identifyChunks posixPath graphUnsorted ''/p/index.js'' ''/p'') =
     Inr [(''shared_z_js'', \<lparr>chunk_id = ''shared_z_js'', moduleIds = [''./z.js'', ''./b.js''],
                              entryModuleId = None, originalChunks = [''a_js'', ''c_js'']\<rparr>)]
   \<and> [''./z.js'', ''./b.js''] \<noteq> []
   \<and> ''shared_z_js'' = ''shared_'' @ toChunkId (hd [''./z.js'', ''./b.js''])"
proof -
  define c where "c = \<lparr>chunk_id = ''shared_z_js'', moduleIds = [''./z.js'', ''./b.js''], entryModuleId = None, originalChunks = [''a_js'', ''c_js'']\<rparr>"
  have run: "map_sum id (\<lambda>r. filter (\<lambda>(k, c). entryModuleId c = None) (lazyChunks r))
     (identifyChunks posixPath graphUnsorted ''/p/index.js'' ''/p'') =
     Inr [(''shared_z_js'', \<lparr>chunk_id = ''shared_z_js'', moduleIds = [''./z.js'', ''./b.js''],
                              entryModuleId = None, originalChunks = [''a_js'', ''c_js'']\<rparr>)]"
    by code_simp
  then obtain r where r: "identifyChunks posixPath graphUnsorted ''/p/index.js'' ''/p'' = Inr r"
    and f: "filter (\<lambda>(k, c). entryModuleId c = None) (lazyChunks r) = [(''shared_z_js'', c)]"
    by (cases "identifyChunks posixPath graphUnsorted ''/p/index.js'' ''/p''") (auto simp: c_def)
  have "(''shared_z_js'', c) \<in> set (filter (\<lambda>(k, c). entryModuleId c = None) (lazyChunks r))"
    by (simp add: f)
  then have mem: "(''shared_z_js'', c) \<in> set (lazyChunks r)" and none: "entryModuleId c = None"
    by auto
  from shared_chunk_named_after_first_member [OF r mem none] run show ?thesis
    by (simp add: c_def)
qed


lemma neededChunks_fold:
  "fold (\<lambda>(sharedId, sharedChunk) needed.
             if chunkId \<in> set (originalChunks sharedChunk) then needed @ [sharedId] else needed)
       sharedChunks acc
   = acc @ map fst (filter (\<lambda>(sharedId, sharedChunk). chunkId \<in> set (originalChunks sharedChunk)) sharedChunks)"
  by (induction sharedChunks arbitrary: acc) auto

lemma neededChunks_filter:
  "neededChunks sharedChunks chunkId =
     map fst (filter (\<lambda>(sharedId, sharedChunk). chunkId \<in> set (originalChunks sharedChunk)) sharedChunks)
     @ [chunkId]"
  by (simp add: neededChunks_def neededChunks_fold)

text \<open>
  Assignments to a plain object: the own properties after a run of assignments, and what
  \<^verbatim>\<open>Object.entries\<close> gives for a key, which is the own property of that key.
\<close>

lemma own_objectSet:
  "map_of (own_properties (objectSet k v obj)) L =
     (if L = k \<and> k \<noteq> ''__proto__'' then Some v else map_of (own_properties obj) L)"
  by (simp add: objectSet_def update_conv')

lemma distinct_own_objectSet:
  "distinct (map fst (own_properties obj)) \<Longrightarrow> distinct (map fst (own_properties (objectSet k v obj)))"
  by (simp add: objectSet_def distinct_update)

lemma groupMap_fold_other:
  "L \<notin> fst ` set xs \<Longrightarrow>
   map_of (own_properties (fold (\<lambda>(chunkId, c) groupMap. objectSet chunkId (f chunkId) groupMap) xs acc)) L
     = map_of (own_properties acc) L"
  by (induction xs arbitrary: acc) (auto simp: own_objectSet)

lemma groupMap_fold_key:
  "L \<in> fst ` set xs \<Longrightarrow> L \<noteq> ''__proto__'' \<Longrightarrow>
   map_of (own_properties (fold (\<lambda>(chunkId, c) groupMap. objectSet chunkId (f chunkId) groupMap) xs acc)) L
     = Some (f L)"
proof (induction xs arbitrary: acc)
  case Nil
  then show ?case by simp
next
  case (Cons kc xs)
  obtain k c where kc: "kc = (k, c)" by (cases kc)
  show ?case
  proof (cases "L \<in> fst ` set xs")
    case True
    then show ?thesis using Cons.IH Cons.prems(2) by (simp add: kc)
  next
    case False
    with Cons.prems have "L = k" by (auto simp: kc)
    with False Cons.prems(2) show ?thesis by (simp add: kc groupMap_fold_other own_objectSet)
  qed
qed

lemma groupMap_fold_distinct:
  "distinct (map fst (own_properties acc)) \<Longrightarrow>
   distinct (map fst (own_properties
      (fold (\<lambda>(chunkId, c) groupMap. objectSet chunkId (f chunkId) groupMap) xs acc)))"
  by (induction xs arbitrary: acc) (auto simp: distinct_own_objectSet)

lemma map_of_objectEntries:
  assumes "distinct (map fst (own_properties obj))"
  shows "map_of (objectEntries obj) = map_of (own_properties obj)"
proof -
  let ?xs = "own_properties obj"
  let ?as = "filter (\<lambda>(k, v). isArrayIndex k) ?xs"
  let ?bs = "filter (\<lambda>(k, v). \<not> isArrayIndex k) ?xs"
  let ?sorted = "sort_key (\<lambda>(k, v). decimalValue k) ?as"
  from assms have dx: "distinct ?xs" and inj: "inj_on fst (set ?xs)"
    by (simp_all add: distinct_map)
  have "inj_on fst (set ?sorted)"
    by (rule inj_on_subset [OF inj]) auto
  with dx have d1: "distinct (map fst ?sorted)" by (simp add: distinct_map)
  have d2: "distinct (map fst ?bs)"
    using assms by (rule distinct_map_filter)
  have d3: "set (map fst ?sorted) \<inter> set (map fst ?bs) = {}" by auto
  from d1 d2 d3 have d: "distinct (map fst (objectEntries obj))"
    by (simp add: objectEntries_def)
  have "set (objectEntries obj) = set ?xs"
    by (auto simp: objectEntries_def)
  with d assms show ?thesis by (simp add: map_of_inject_set)
qed

lemma buildChunkGroupMap_entry:
  assumes "(L, c) \<in> set updatedLazyChunks" and "L \<noteq> ''__proto__''"
  shows "map_of (objectEntries (buildChunkGroupMap updatedLazyChunks sharedChunks)) L =
     Some (map fst (filter (\<lambda>(sharedId, sharedChunk). L \<in> set (originalChunks sharedChunk)) sharedChunks)
           @ [L])"
proof -
  have "distinct (map fst (own_properties (buildChunkGroupMap updatedLazyChunks sharedChunks)))"
    unfolding buildChunkGroupMap_def by (rule groupMap_fold_distinct) (simp add: emptyObject_def)
  from map_of_objectEntries [OF this]
  have "map_of (objectEntries (buildChunkGroupMap updatedLazyChunks sharedChunks)) L
      = map_of (own_properties (buildChunkGroupMap updatedLazyChunks sharedChunks)) L"
    by simp
  also from assms(1) have "L \<in> fst ` set updatedLazyChunks" by force
  then have "map_of (own_properties (buildChunkGroupMap updatedLazyChunks sharedChunks)) L
      = Some (neededChunks sharedChunks L)"
    unfolding buildChunkGroupMap_def using assms(2) by (rule groupMap_fold_key)
  finally show ?thesis by (simp add: neededChunks_filter)
qed

text \<open>
  C3, as the code has it.  For every lazy chunk \<open>L\<close> whose id is not \<^verbatim>\<open>__proto__\<close>,
  the entry of \<open>L\<close> among the \<^verbatim>\<open>Object.entries\<close> of the planner's chunk-group map is
  the list of the ids of the shared chunks whose reference set (\<open>originalChunks\<close>)
  contains \<open>L\<close>, in the order in which the shared chunks were created, followed by
  \<open>L\<close> itself.
\<close>

theorem chunk_group_shared_then_self:
  assumes "identifyChunks P graph entryPath projectRoot = Inr r"
  shows "\<exists>lazy updated shared.
           buildLazyChunks P projectRoot (modules r) (moduleIds (mainChunk r)) (dynamicEntryPoints r) []
             = Inr lazy
         \<and> splitSharedModules lazy = Inr (updated, shared)
         \<and> lazyChunks r = newMap (updated @ shared)
         \<and> (\<forall>(L, c) \<in> set updated. L \<noteq> ''__proto__'' \<longrightarrow>
               map_of (objectEntries (chunkGroupMap r)) L =
                 Some (map fst (filter (\<lambda>(sharedId, sharedChunk). L \<in> set (originalChunks sharedChunk)) shared)
                       @ [L]))"
proof -
  define mods where "mods = moduleMap P projectRoot graph"
  from assms obtain mainIds lazy updated shared where
    lazy: "buildLazyChunks P projectRoot mods mainIds (collectDynamicEntryPoints P projectRoot mods) [] = Inr lazy"
    and split: "splitSharedModules lazy = Inr (updated, shared)"
    and r: "r = \<lparr>mainChunk = \<lparr>chunk_id = ''main'', moduleIds = mainIds,
                              entryModuleId = None, originalChunks = []\<rparr>,
                lazyChunks = newMap (updated @ shared),
                chunkGroupMap = buildChunkGroupMap updated shared,
                modules = mods,
                dynamicEntryPoints = collectDynamicEntryPoints P projectRoot mods\<rparr>"
    by (auto simp: identifyChunks_def Let_def mods_def split: sum.splits)
  have "\<forall>(L, c) \<in> set updated. L \<noteq> ''__proto__'' \<longrightarrow>
               map_of (objectEntries (chunkGroupMap r)) L =
                 Some (map fst (filter (\<lambda>(sharedId, sharedChunk). L \<in> set (originalChunks sharedChunk)) shared)
                       @ [L])"
    using buildChunkGroupMap_entry [of _ _ updated shared] by (auto simp: r)
  with lazy split show ?thesis
    by (intro exI [of _ lazy] exI [of _ updated] exI [of _ shared]) (simp add: r)
qed

text \<open>
  C3 as stated fails twice.  On \<open>graphTwoShared\<close> the group of \<^verbatim>\<open>l1_js\<close> lists
  \<^verbatim>\<open>shared_z_js\<close> before \<^verbatim>\<open>shared_a_js\<close>, the order in which the two shared chunks
  were created, not the order of their ids.  On \<open>graphProto\<close> the lazy chunk
  \<^verbatim>\<open>__proto__\<close> has no entry at all: the assignment to that key of a plain object
  sets the prototype.
\<close>

theorem chunk_group_id_order_counterexample:
  "map_sum id (\<lambda>r. (map_of (objectEntries (chunkGroupMap r)) ''l1_js'',
                     chunkGroupInIdOrder (lazyChunks r) ''l1_js''))
     (identifyChunks posixPath graphTwoShared ''/p/index.js'' ''/p'')
   = Inr (Some [''shared_z_js'', ''shared_a_js'', ''l1_js''],
          [''shared_a_js'', ''shared_z_js'', ''l1_js''])
   \<and> map_sum id (\<lambda>r. (map fst (lazyChunks r), objectEntries (chunkGroupMap r)))
       (identifyChunks posixPath graphProto ''/p/index.js'' ''/p'')
   = Inr ([''__proto__'', ''a_js''], [(''a_js'', [''a_js''])])"
  by code_simp

text \<open>The theorem at the chunk \<^verbatim>\<open>l1_js\<close> of \<open>graphTwoShared\<close>.\<close>

lemma filter_originalChunks:
  "map fst (filter (\<lambda>(sharedId, sharedChunk). L \<in> set (originalChunks sharedChunk)) shared)
   = map fst (filter (\<lambda>(sharedId, oc). L \<in> set oc) (map (\<lambda>(k, c). (k, originalChunks c)) shared))"
  by (induction shared) auto

theorem chunk_group_shared_then_self_witness:
  "map_sum id (\<lambda>r. map_of (objectEntries (chunkGroupMap r)) ''l1_js'')
     (identifyChunks posixPath graphTwoShared ''/p/index.js'' ''/p'')
   = Inr (Some [''shared_z_js'', ''shared_a_js'', ''l1_js''])"
proof -
  have run: "map_sum id (\<lambda>r.
       case buildLazyChunks posixPath ''/p'' (modules r) (moduleIds (mainChunk r)) (dynamicEntryPoints r) [] of
         Inl e \<Rightarrow> None
       | Inr lazy \<Rightarrow>
           (case splitSharedModules lazy of
              Inl e \<Rightarrow> None
            | Inr (u, s) \<Rightarrow> Some (map fst u, map (\<lambda>(k, c). (k, originalChunks c)) s)))
     (identifyChunks posixPath graphTwoShared ''/p/index.js'' ''/p'')
    = Inr (Some ([''l1_js'', ''l2_js'', ''l3_js''],
                 [(''shared_z_js'', [''l1_js'', ''l2_js'']), (''shared_a_js'', [''l1_js'', ''l3_js''])]))"
    by code_simp
  then obtain r where r: "identifyChunks posixPath graphTwoShared ''/p/index.js'' ''/p'' = Inr r"
    by (cases "identifyChunks posixPath graphTwoShared ''/p/index.js'' ''/p''") auto
  from chunk_group_shared_then_self [OF r] obtain lazy updated shared where
    lazy: "buildLazyChunks posixPath ''/p'' (modules r) (moduleIds (mainChunk r)) (dynamicEntryPoints r) [] = Inr lazy"
    and split: "splitSharedModules lazy = Inr (updated, shared)"
    and entries: "\<forall>(L, c) \<in> set updated. L \<noteq> ''__proto__'' \<longrightarrow>
               map_of (objectEntries (chunkGroupMap r)) L =
                 Some (map fst (filter (\<lambda>(sharedId, sharedChunk). L \<in> set (originalChunks sharedChunk)) shared)
                       @ [L])"
    by blast
  from run r lazy split have u: "map fst updated = [''l1_js'', ''l2_js'', ''l3_js'']"
    and s: "map (\<lambda>(k, c). (k, originalChunks c)) shared =
              [(''shared_z_js'', [''l1_js'', ''l2_js'']), (''shared_a_js'', [''l1_js'', ''l3_js''])]"
    by simp_all
  from u have "''l1_js'' \<in> fst ` set updated"
    by (metis list.set_intros(1) set_map)
  then obtain c where mem: "(''l1_js'', c) \<in> set updated" by auto
  from bspec [OF entries mem]
  have "map_of (objectEntries (chunkGroupMap r)) ''l1_js'' =
      Some (map fst (filter (\<lambda>(sharedId, sharedChunk). ''l1_js'' \<in> set (originalChunks sharedChunk)) shared)
            @ [''l1_js''])"
    by simp
  then have "map_of (objectEntries (chunkGroupMap r)) ''l1_js'' = Some [''shared_z_js'', ''shared_a_js'', ''l1_js'']"
    by (simp add: filter_originalChunks s)
  with r show ?thesis by simp
qed

section \<open>Module transformer: loader statements and identifier rewriting\<close>

text \<open>
  C1 at a module with two import declarations for \<^verbatim>\<open>./m.js\<close> (\<open>twiceSnap\<close>): the
  factory body of the entry holds the statement \<^verbatim>\<open>var _m_ = loadModule("./m.js");\<close>
  twice, once per declaration; the variable is the same.
\<close>

theorem import_source_loaded_per_declaration:
  "map_sum id (\<lambda>files. factoryBody files ''./index.js'')
     (runBundler posixPath twiceAcorn twiceSnap ''/p/index.js'' ''/p'')
   = Inr (Some (indentCode
                  (join (NL @ NL)
                     [''loadModule.markAsESModule(exports);'',
                      join NL [''var _m_ = loadModule('' @ DQ @ ''./m.js'' @ DQ @ '');'',
                               ''var _m_ = loadModule('' @ DQ @ ''./m.js'' @ DQ @ '');''],
                      ''console.log(_m_.a, _m_.b);''])
                  ''    ''))"
  by code_simp

text \<open>
  C4 at \<open>shadowModule\<close>.  The \<open>add\<close> after \<^verbatim>\<open>return\<close> lies inside the function
  \<open>f\<close>, whose parameter has that name: it refers to the parameter and is no free
  reference to the import.  The callback looks at its parent, a return statement, finds
  none of the contexts it skips, and replaces it; the factory body reads
  \<^verbatim>\<open>function f(add) { return _m_.add; }\<close>.
\<close>

theorem parameter_bound_occurrence_rewritten:
  "boundByEnclosingParameter shadowUse shadowAncestors
   \<and> identifierCallback (importedBindings shadowModule) [(''./m.js'', ''_m_'')]
       shadowUse shadowAncestors
     = Some \<lparr>r_start = 55, r_end = 58, r_text = ''_m_.add''\<rparr>
   \<and> transformModule posixPath shadowModule ''/p''
     = Inr (''loadModule.markAsESModule(exports);'' @ [CHR 0x0A, CHR 0x0A] @
            ''var _m_ = loadModule('' @ [CHR 0x22] @ ''./m.js'' @ [CHR 0x22] @ '');'' @
            [CHR 0x0A, CHR 0x0A] @
            ''function f(add) { return _m_.add; }'')"
  by code_simp


section \<open>The patching buffer under the transformer's edits\<close>

text \<open>
  Contiguous chunk lists: the chunks lie inside the covered range, the boundaries of
  neighbours coincide, and a position that is no boundary lies inside one chunk.
\<close>

lemma contiguous_le: "contiguous a cs b \<Longrightarrow> a \<le> b"
proof (induction cs arbitrary: a)
  case Nil
  then show ?case by simp
next
  case (Cons c cs)
  from Cons.prems have "contiguous (c_end c) cs b" "a < c_end c" by simp_all
  from Cons.IH [OF this(1)] this(2) show ?case by simp
qed

lemma contiguous_bounds:
  "contiguous a cs b \<Longrightarrow> c \<in> set cs \<Longrightarrow> a \<le> c_start c \<and> c_start c < c_end c \<and> c_end c \<le> b"
proof (induction cs arbitrary: a)
  case Nil
  then show ?case by simp
next
  case (Cons d cs)
  from Cons.prems(1) have rest: "contiguous (c_end d) cs b" by simp
  show ?case
  proof (cases "c = d")
    case True
    with Cons.prems(1) contiguous_le [OF rest] show ?thesis by simp
  next
    case False
    with Cons.prems have "c \<in> set cs" by simp
    from Cons.IH [OF rest this] Cons.prems(1) show ?thesis by simp
  qed
qed

lemma contiguous_hd: "contiguous a cs b \<Longrightarrow> a < b \<Longrightarrow> a \<in> c_start ` set cs"
  by (cases cs) auto

lemma contiguous_last: "contiguous a cs b \<Longrightarrow> a < b \<Longrightarrow> b \<in> c_end ` set cs"
proof (induction cs arbitrary: a)
  case Nil
  then show ?case by simp
next
  case (Cons c cs)
  from Cons.prems have rest: "contiguous (c_end c) cs b" by simp
  show ?case
  proof (cases "c_end c = b")
    case True
    then show ?thesis by simp
  next
    case False
    with contiguous_le [OF rest] have "c_end c < b" by simp
    from Cons.IH [OF rest this] show ?thesis by auto
  qed
qed

lemma contiguous_end_is_start:
  "contiguous a cs b \<Longrightarrow> e \<in> c_end ` set cs \<Longrightarrow> e < b \<Longrightarrow> e \<in> c_start ` set cs"
proof (induction cs arbitrary: a)
  case Nil
  then show ?case by simp
next
  case (Cons c cs)
  from Cons.prems(1) have rest: "contiguous (c_end c) cs b" by simp
  show ?case
  proof (cases "e = c_end c")
    case True
    with Cons.prems(3) rest have "c_end c \<in> c_start ` set cs" by (intro contiguous_hd) auto
    with True show ?thesis by simp
  next
    case False
    with Cons.prems(2) have "e \<in> c_end ` set cs" by auto
    from Cons.IH [OF rest this Cons.prems(3)] show ?thesis by simp
  qed
qed

lemma contiguous_start_is_end:
  "contiguous a cs b \<Longrightarrow> s \<in> c_start ` set cs \<Longrightarrow> a < s \<Longrightarrow> s \<in> c_end ` set cs"
proof (induction cs arbitrary: a)
  case Nil
  then show ?case by simp
next
  case (Cons c cs)
  from Cons.prems(1) have rest: "contiguous (c_end c) cs b" and a: "c_start c = a" by simp_all
  from Cons.prems(2,3) a have mem: "s \<in> c_start ` set cs" by auto
  show ?case
  proof (cases "s = c_end c")
    case True
    then show ?thesis by simp
  next
    case False
    from mem obtain d where d: "d \<in> set cs" "c_start d = s" by auto
    from contiguous_bounds [OF rest d(1)] d(2) False have "c_end c < s" by simp
    from Cons.IH [OF rest mem this] show ?thesis by simp
  qed
qed

lemma contiguous_inside:
  "contiguous a cs b \<Longrightarrow> a < i \<Longrightarrow> i < b \<Longrightarrow> i \<notin> c_end ` set cs \<Longrightarrow>
     \<exists>c \<in> set cs. c_start c < i \<and> i < c_end c"
proof (induction cs arbitrary: a)
  case Nil
  then show ?case by simp
next
  case (Cons c cs)
  from Cons.prems(1) have rest: "contiguous (c_end c) cs b" and a: "c_start c = a" by simp_all
  show ?case
  proof (cases "i < c_end c")
    case True
    with a Cons.prems(2) show ?thesis by auto
  next
    case False
    with Cons.prems(4) have "c_end c < i" by auto
    from Cons.IH [OF rest this Cons.prems(3)] Cons.prems(4) show ?thesis by auto
  qed
qed


text \<open>
  Once chunks begin at \<open>s\<close> and end at \<open>e\<close>, the loops of \<^verbatim>\<open>remove\<close> and
  \<^verbatim>\<open>overwrite\<close> edit exactly the chunks that begin in the range.
\<close>

lemma editFrom_map:
  "contiguous a cs b \<Longrightarrow> s \<in> c_start ` set cs \<Longrightarrow> e \<in> c_end ` set cs \<Longrightarrow> s < e \<Longrightarrow>
   editFrom s e cs = map (\<lambda>c. if s \<le> c_start c \<and> c_start c < e then chunk_edit [] c else c) cs"
proof (induction cs arbitrary: a s)
  case Nil
  then show ?case by simp
next
  case (Cons c cs)
  from Cons.prems(1) have rest: "contiguous (c_end c) cs b" and a: "c_start c = a" "a < c_end c"
    by simp_all
  have later: "\<forall>d \<in> set cs. c_end c \<le> c_start d \<and> c_end c < c_end d"
  proof
    fix d assume "d \<in> set cs"
    from contiguous_bounds [OF rest this] show "c_end c \<le> c_start d \<and> c_end c < c_end d"
      by simp
  qed
  show ?case
  proof (cases "c_start c = s")
    case True
    show ?thesis
    proof (cases "e > c_end c")
      case far: True
      with Cons.prems(3) have e: "e \<in> c_end ` set cs" by auto
      then have "cs \<noteq> []" by auto
      with rest have st: "c_end c \<in> c_start ` set cs" by (cases cs) auto
      have "editFrom (c_end c) e cs
          = map (\<lambda>d. if c_end c \<le> c_start d \<and> c_start d < e then chunk_edit [] d else d) cs"
        by (rule Cons.IH [OF rest st e far])
      also have "\<dots> = map (\<lambda>d. if s \<le> c_start d \<and> c_start d < e then chunk_edit [] d else d) cs"
        using later True a by (intro map_cong) force+
      finally show ?thesis using True far Cons.prems(4) by simp
    next
      case near: False
      have "map (\<lambda>d. if s \<le> c_start d \<and> c_start d < e then chunk_edit [] d else d) cs = cs"
        using later near by (intro map_idI) force
      with True near Cons.prems(4) show ?thesis by simp
    qed
  next
    case False
    with Cons.prems(2) have st: "s \<in> c_start ` set cs" by auto
    then obtain d where d: "d \<in> set cs" "c_start d = s" by auto
    from later d have s: "c_end c \<le> s" by auto
    with Cons.prems(3,4) have e: "e \<in> c_end ` set cs" by auto
    from Cons.IH [OF rest st e Cons.prems(4)] False s a show ?thesis by simp
  qed
qed

lemma overwriteFrom_map:
  "contiguous a cs b \<Longrightarrow> s \<in> c_start ` set cs \<Longrightarrow> e \<in> c_end ` set cs \<Longrightarrow> s < e \<Longrightarrow>
   overwriteFrom s e content cs =
     map (\<lambda>c. if c_start c = s then chunk_edit content c
               else if s < c_start c \<and> c_start c < e then chunk_edit [] c else c) cs"
proof (induction cs arbitrary: a)
  case Nil
  then show ?case by simp
next
  case (Cons c cs)
  from Cons.prems(1) have rest: "contiguous (c_end c) cs b" and a: "c_start c = a" "a < c_end c"
    by simp_all
  have later: "\<forall>d \<in> set cs. c_end c \<le> c_start d \<and> c_end c < c_end d"
  proof
    fix d assume "d \<in> set cs"
    from contiguous_bounds [OF rest this] show "c_end c \<le> c_start d \<and> c_end c < c_end d"
      by simp
  qed
  show ?case
  proof (cases "c_start c = s")
    case True
    show ?thesis
    proof (cases "c_end c = e")
      case near: True
      have "map (\<lambda>d. if c_start d = s then chunk_edit content d
               else if s < c_start d \<and> c_start d < e then chunk_edit [] d else d) cs = cs"
        using later near True a by (intro map_idI) force
      with True near show ?thesis by simp
    next
      case far: False
      with Cons.prems(3) have e: "e \<in> c_end ` set cs" by auto
      then obtain d where "d \<in> set cs" "c_end d = e" by auto
      with later have lt: "c_end c < e" by auto
      from e have "cs \<noteq> []" by auto
      with rest have st: "c_end c \<in> c_start ` set cs" by (cases cs) auto
      have "editFrom (c_end c) e cs
          = map (\<lambda>d. if c_end c \<le> c_start d \<and> c_start d < e then chunk_edit [] d else d) cs"
        by (rule editFrom_map [OF rest st e lt])
      also have "\<dots> = map (\<lambda>d. if c_start d = s then chunk_edit content d
               else if s < c_start d \<and> c_start d < e then chunk_edit [] d else d) cs"
        using later True a by (intro map_cong) force+
      finally show ?thesis using True far by simp
    qed
  next
    case False
    with Cons.prems(2) have st: "s \<in> c_start ` set cs" by auto
    then obtain d where d: "d \<in> set cs" "c_start d = s" by auto
    from later d have s: "c_end c \<le> s" by auto
    with Cons.prems(3,4) have e: "e \<in> c_end ` set cs" by auto
    from Cons.IH [OF rest st e Cons.prems(4)] False s a show ?thesis by simp
  qed
qed

lemma contiguous_map:
  "(\<And>c. c_start (f c) = c_start c \<and> c_end (f c) = c_end c) \<Longrightarrow>
   contiguous a (map f cs) b = contiguous a cs b"
  by (induction cs arbitrary: a) simp_all


text \<open>
  Splitting: \<^verbatim>\<open>_split(i)\<close> succeeds when \<open>i\<close> lies inside no chunk with replacement
  text; it keeps the chunks contiguous, makes \<open>i\<close> a boundary and adds no replacement
  text.
\<close>

lemma chunk_split_halves:
  assumes "chunk_split i c = (l, r)"
  shows "c_start l = c_start c" "c_end l = i" "c_start r = i" "c_end r = c_end c"
    "c_edited l = c_edited c" "c_edited r = c_edited c"
    "c_edited c \<Longrightarrow> c_content l = [] \<and> c_content r = []"
  using assms by (auto simp: chunk_split_def Let_def split: if_splits)

lemma halfOf_Cons: "halfOf i cs c' \<Longrightarrow> halfOf i (c # cs) c'"
  by (auto simp: halfOf_def)

lemma splitChunks_sound:
  assumes "contiguous a cs b"
    and "\<forall>c \<in> set cs. c_start c < i \<and> i < c_end c \<longrightarrow> \<not> (c_edited c \<and> c_content c \<noteq> [])"
  shows "\<exists>cs'. splitChunks i cs = Inr cs' \<and> contiguous a cs' b
           \<and> c_start ` set cs \<subseteq> c_start ` set cs' \<and> c_end ` set cs \<subseteq> c_end ` set cs'
           \<and> ((\<exists>c \<in> set cs. c_start c < i \<and> i < c_end c)
                 \<longrightarrow> i \<in> c_start ` set cs' \<and> i \<in> c_end ` set cs')
           \<and> (\<forall>c' \<in> set cs'. c' \<in> set cs \<or> halfOf i cs c')
           \<and> (\<forall>c \<in> set cs. \<not> (c_start c < i \<and> i < c_end c) \<longrightarrow> c \<in> set cs')"
  using assms
proof (induction cs arbitrary: a)
  case Nil
  then show ?case by simp
next
  case (Cons c cs)
  from Cons.prems(1) have rest: "contiguous (c_end c) cs b" and a: "c_start c = a" "a < c_end c"
    by simp_all
  show ?case
  proof (cases "c_start c < i \<and> i < c_end c")
    case True
    with Cons.prems(2) have ok: "\<not> (c_edited c \<and> c_content c \<noteq> [])" by simp
    obtain l r where lr: "chunk_split i c = (l, r)" by (cases "chunk_split i c")
    note h = chunk_split_halves [OF lr]
    have res: "splitChunks i (c # cs) = Inr (l # r # cs)"
      using True ok lr by simp
    have cont: "contiguous a (l # r # cs) b"
      using h a True rest by simp
    have half: "halfOf i (c # cs) l" "halfOf i (c # cs) r"
      using True ok lr by (auto simp: halfOf_def)
    have "c_start ` set (c # cs) \<subseteq> c_start ` set (l # r # cs)"
      using h by auto
    moreover have "c_end ` set (c # cs) \<subseteq> c_end ` set (l # r # cs)"
      using h by auto
    moreover have "i \<in> c_start ` set (l # r # cs) \<and> i \<in> c_end ` set (l # r # cs)"
      using h by force
    moreover have "\<forall>c' \<in> set (l # r # cs). c' \<in> set (c # cs) \<or> halfOf i (c # cs) c'"
      using half by auto
    moreover have "\<forall>d \<in> set (c # cs). \<not> (c_start d < i \<and> i < c_end d) \<longrightarrow> d \<in> set (l # r # cs)"
      using True by auto
    ultimately show ?thesis using res cont by blast
  next
    case False
    from Cons.prems(2) have "\<forall>c \<in> set cs. c_start c < i \<and> i < c_end c \<longrightarrow> \<not> (c_edited c \<and> c_content c \<noteq> [])"
      by simp
    from Cons.IH [OF rest this] obtain cs' where
      r: "splitChunks i cs = Inr cs'" and c: "contiguous (c_end c) cs' b"
      and st: "c_start ` set cs \<subseteq> c_start ` set cs'" and en: "c_end ` set cs \<subseteq> c_end ` set cs'"
      and bd: "(\<exists>c \<in> set cs. c_start c < i \<and> i < c_end c)
                 \<longrightarrow> i \<in> c_start ` set cs' \<and> i \<in> c_end ` set cs'"
      and mem: "\<forall>c' \<in> set cs'. c' \<in> set cs \<or> halfOf i cs c'"
      and keep: "\<forall>c \<in> set cs. \<not> (c_start c < i \<and> i < c_end c) \<longrightarrow> c \<in> set cs'"
      by blast
    have res: "splitChunks i (c # cs) = Inr (c # cs')"
      using False r by auto
    have cont: "contiguous a (c # cs') b" using a c by simp
    have "c_start ` set (c # cs) \<subseteq> c_start ` set (c # cs')" using st by auto
    moreover have "c_end ` set (c # cs) \<subseteq> c_end ` set (c # cs')" using en by auto
    moreover have "(\<exists>d \<in> set (c # cs). c_start d < i \<and> i < c_end d)
                 \<longrightarrow> i \<in> c_start ` set (c # cs') \<and> i \<in> c_end ` set (c # cs')"
      using bd False by auto
    moreover have "\<forall>c' \<in> set (c # cs'). c' \<in> set (c # cs) \<or> halfOf i (c # cs) c'"
      using mem halfOf_Cons by auto
    moreover have "\<forall>d \<in> set (c # cs). \<not> (c_start d < i \<and> i < c_end d) \<longrightarrow> d \<in> set (c # cs')"
      using keep by auto
    ultimately show ?thesis using res cont by blast
  qed
qed


lemma refined_refl: "refined i s s"
  by (simp add: refined_def)

lemma halfOf_plain:
  assumes "halfOf i cs c'"
  shows "\<not> (c_edited c' \<and> c_content c' \<noteq> [])"
proof -
  from assms obtain c where c: "c \<in> set cs" "\<not> (c_edited c \<and> c_content c \<noteq> [])"
    and h: "c' = fst (chunk_split i c) \<or> c' = snd (chunk_split i c)"
    by (auto simp: halfOf_def)
  obtain l r where lr: "chunk_split i c = (l, r)" by (cases "chunk_split i c")
  note hs = chunk_split_halves [OF lr]
  from h lr have "c' = l \<or> c' = r" by simp
  then show ?thesis using hs by auto
qed

lemma halfOf_left_or_at:
  assumes "halfOf i cs c'"
  shows "c_start c' = i \<or> (\<exists>c \<in> set cs. c_start c' = c_start c \<and> c_edited c' = c_edited c
            \<and> (c_edited c \<longrightarrow> c_content c' = []))"
proof -
  from assms obtain c where c: "c \<in> set cs"
    and h: "c' = fst (chunk_split i c) \<or> c' = snd (chunk_split i c)"
    by (auto simp: halfOf_def)
  obtain l r where lr: "chunk_split i c = (l, r)" by (cases "chunk_split i c")
  note hs = chunk_split_halves [OF lr]
  from h lr have "c' = l \<or> c' = r" by simp
  then show ?thesis
  proof
    assume "c' = l"
    then have "c_start c' = c_start c \<and> c_edited c' = c_edited c
            \<and> (c_edited c \<longrightarrow> c_content c' = [])"
      using hs by simp
    then show ?thesis using c by blast
  next
    assume "c' = r"
    then show ?thesis using hs by simp
  qed
qed

lemma ms_split_sound:
  assumes sound: "soundBuffer R s"
    and le: "i \<le> length (ms_original s)"
    and safe: "\<forall>(a, b) \<in> R. \<not> (a < i \<and> i < b)"
  shows "\<exists>s'. ms_split i s = Inr s' \<and> soundBuffer R s' \<and> refined i s s'
           \<and> (i < length (ms_original s) \<longrightarrow> i \<in> c_start ` set (ms_chunks s'))
           \<and> (0 < i \<longrightarrow> i \<in> c_end ` set (ms_chunks s'))"
proof -
  let ?cs = "ms_chunks s" and ?n = "length (ms_original s)"
  from sound have cont: "contiguous 0 ?cs ?n"
    and ed: "\<forall>c \<in> set ?cs. c_edited c \<and> c_content c \<noteq> [] \<longrightarrow>
               (\<exists>(a, b) \<in> R. a \<le> c_start c \<and> c_end c \<le> b)"
    by (simp_all add: soundBuffer_def)
  show ?thesis
  proof (cases "list_ex (\<lambda>c. c_start c = i \<or> c_end c = i) ?cs")
    case True
    then have res: "ms_split i s = Inr s" by (simp add: ms_split_def)
    from True have at: "i \<in> c_start ` set ?cs \<or> i \<in> c_end ` set ?cs"
      by (auto simp: list_ex_iff)
    have st: "i < ?n \<longrightarrow> i \<in> c_start ` set ?cs"
      using at contiguous_end_is_start [OF cont] by blast
    have en: "0 < i \<longrightarrow> i \<in> c_end ` set ?cs"
      using at contiguous_start_is_end [OF cont] by blast
    show ?thesis using res sound refined_refl [of i s] st en
      by (intro exI [of _ s]) simp
  next
    case False
    then have nst: "i \<notin> c_start ` set ?cs" and nen: "i \<notin> c_end ` set ?cs"
      by (auto simp: list_ex_iff)
    have safe': "\<forall>c \<in> set ?cs. c_start c < i \<and> i < c_end c \<longrightarrow> \<not> (c_edited c \<and> c_content c \<noteq> [])"
    proof (intro ballI impI notI)
      fix c assume c: "c \<in> set ?cs" and in1: "c_start c < i \<and> i < c_end c"
        and e: "c_edited c \<and> c_content c \<noteq> []"
      from ed c e obtain a b where "(a, b) \<in> R" "a \<le> c_start c" "c_end c \<le> b" by blast
      with in1 safe show False by fastforce
    qed
    from splitChunks_sound [OF cont safe'] obtain cs' where
      r: "splitChunks i ?cs = Inr cs'" and c: "contiguous 0 cs' ?n"
      and st: "c_start ` set ?cs \<subseteq> c_start ` set cs'" and en: "c_end ` set ?cs \<subseteq> c_end ` set cs'"
      and bd: "(\<exists>c \<in> set ?cs. c_start c < i \<and> i < c_end c)
                 \<longrightarrow> i \<in> c_start ` set cs' \<and> i \<in> c_end ` set cs'"
      and mem: "\<forall>c' \<in> set cs'. c' \<in> set ?cs \<or> halfOf i ?cs c'"
      and keep: "\<forall>c \<in> set ?cs. \<not> (c_start c < i \<and> i < c_end c) \<longrightarrow> c \<in> set cs'"
      by blast
    let ?s' = "s\<lparr>ms_chunks := cs'\<rparr>"
    have res: "ms_split i s = Inr ?s'"
      using False r by (simp add: ms_split_def)
    have sound': "soundBuffer R ?s'"
      unfolding soundBuffer_def
    proof (intro conjI ballI impI)
      show "contiguous 0 (ms_chunks ?s') (length (ms_original ?s'))" using c by simp
    next
      fix c' assume c': "c' \<in> set (ms_chunks ?s')" and e: "c_edited c' \<and> c_content c' \<noteq> []"
      from c' mem have "c' \<in> set ?cs \<or> halfOf i ?cs c'" by simp
      with e halfOf_plain have "c' \<in> set ?cs" by blast
      with ed e show "\<exists>(a, b) \<in> R. a \<le> c_start c' \<and> c_end c' \<le> b" by blast
    qed
    have ref: "refined i s ?s'"
      unfolding refined_def using st en mem keep safe' by auto
    have inside: "0 < i \<Longrightarrow> i < ?n \<Longrightarrow> \<exists>c \<in> set ?cs. c_start c < i \<and> i < c_end c"
      using contiguous_inside [OF cont _ _ nen] by blast
    have hd: "0 < ?n \<Longrightarrow> 0 \<in> c_start ` set ?cs" using contiguous_hd [OF cont] by blast
    have lst: "0 < ?n \<Longrightarrow> ?n \<in> c_end ` set ?cs" using contiguous_last [OF cont] by blast
    have i0: "0 < i \<or> ?n = 0" using hd nst by (cases "i = 0") auto
    have iN: "i < ?n \<or> ?n = 0" using lst nen le by (cases "i = ?n") auto
    have st': "i < ?n \<longrightarrow> i \<in> c_start ` set (ms_chunks ?s')"
      using i0 inside bd by auto
    have en': "0 < i \<longrightarrow> i \<in> c_end ` set (ms_chunks ?s')"
      using iN inside bd le by auto
    show ?thesis using res sound' ref st' en'
      by (intro exI [of _ ?s']) simp
  qed
qed

lemma DEFAULT_VAR_DECL_nonempty: "DEFAULT_VAR_DECL \<noteq> []"
  by (simp add: DEFAULT_VAR_DECL_def)

lemma prefixPatched_refined:
  assumes pp: "prefixPatched ds dd s" and ref: "refined i s s'" and out: "\<not> (ds < i \<and> i < dd)"
  shows "prefixPatched ds dd s'"
proof -
  from pp obtain cD where cD: "cD \<in> set (ms_chunks s)" "c_start cD = ds" "c_edited cD"
    "c_content cD = DEFAULT_VAR_DECL"
    and rest: "\<forall>c \<in> set (ms_chunks s). ds < c_start c \<and> c_start c < dd \<longrightarrow>
                 c_edited c \<and> c_content c = []"
    by (auto simp: prefixPatched_def)
  from pp have stop: "dd \<in> c_end ` set (ms_chunks s)"
    by (auto simp: prefixPatched_def)
  from ref have mem: "\<forall>c' \<in> set (ms_chunks s'). c' \<in> set (ms_chunks s) \<or> halfOf i (ms_chunks s) c'"
    and keep: "\<forall>c \<in> set (ms_chunks s). c_edited c \<and> c_content c \<noteq> [] \<longrightarrow> c \<in> set (ms_chunks s')"
    and ends: "c_end ` set (ms_chunks s) \<subseteq> c_end ` set (ms_chunks s')"
    by (simp_all add: refined_def)
  from stop ends have "dd \<in> c_end ` set (ms_chunks s')" by blast
  then have third: "\<exists>c \<in> set (ms_chunks s'). c_end c = dd" by (auto simp: image_iff)
  from keep cD DEFAULT_VAR_DECL_nonempty have "cD \<in> set (ms_chunks s')" by simp
  with cD have first: "\<exists>c \<in> set (ms_chunks s'). c_start c = ds \<and> c_edited c \<and> c_content c = DEFAULT_VAR_DECL"
    by blast
  have second: "\<forall>c' \<in> set (ms_chunks s'). ds < c_start c' \<and> c_start c' < dd \<longrightarrow>
                  c_edited c' \<and> c_content c' = []"
  proof (intro ballI impI)
    fix c' assume c': "c' \<in> set (ms_chunks s')" and rng: "ds < c_start c' \<and> c_start c' < dd"
    from mem c' have "c' \<in> set (ms_chunks s) \<or> halfOf i (ms_chunks s) c'" by simp
    then show "c_edited c' \<and> c_content c' = []"
    proof
      assume "c' \<in> set (ms_chunks s)"
      with rest rng show ?thesis by simp
    next
      assume "halfOf i (ms_chunks s) c'"
      from halfOf_left_or_at [OF this] rng out
      obtain c where c: "c \<in> set (ms_chunks s)" "c_start c' = c_start c" "c_edited c' = c_edited c"
        "c_edited c \<longrightarrow> c_content c' = []"
        by auto
      with rest rng show ?thesis by simp
    qed
  qed
  from first second third show ?thesis by (simp add: prefixPatched_def)
qed

lemma contiguous_no_straddle:
  "contiguous a cs b \<Longrightarrow> c \<in> set cs \<Longrightarrow> d \<in> set cs \<Longrightarrow> c_start c < c_end d \<Longrightarrow>
     c_end d < c_end c \<Longrightarrow> False"
proof (induction cs arbitrary: a)
  case Nil
  then show ?case by simp
next
  case (Cons x xs)
  from Cons.prems(1) have rest: "contiguous (c_end x) xs b" by simp
  note bnd = contiguous_bounds [OF rest]
  from Cons.prems(2) have "c = x \<or> c \<in> set xs" by simp
  moreover from Cons.prems(3) have "d = x \<or> d \<in> set xs" by simp
  ultimately consider "c = x" "d = x" | "c = x" "d \<in> set xs" | "c \<in> set xs" "d = x"
    | "c \<in> set xs" "d \<in> set xs" by blast
  then show ?case
  proof cases
    case 1
    with Cons.prems show ?thesis by simp
  next
    case 2
    with bnd [of d] Cons.prems show ?thesis by simp
  next
    case 3
    with bnd [of c] Cons.prems show ?thesis by simp
  next
    case 4
    with Cons.IH [OF rest] Cons.prems show ?thesis by blast
  qed
qed


text \<open>
  \<^verbatim>\<open>remove\<close> on a buffer without replacement text, and \<^verbatim>\<open>overwrite\<close> of a range
  that is the same as or apart from every range overwritten before.
\<close>

lemma split_both:
  assumes sound: "soundBuffer R s" and ab: "a < b" and le: "b \<le> length (ms_original s)"
    and safe: "\<forall>(x, y) \<in> R. \<not> (x < a \<and> a < y) \<and> \<not> (x < b \<and> b < y)"
  shows "\<exists>s1 s2. ms_split a s = Inr s1 \<and> ms_split b s1 = Inr s2 \<and> soundBuffer R s2
           \<and> ms_original s1 = ms_original s \<and> ms_original s2 = ms_original s
           \<and> a \<in> c_start ` set (ms_chunks s2) \<and> b \<in> c_end ` set (ms_chunks s2)
           \<and> (\<forall>ds dd. prefixPatched ds dd s \<and> \<not> (ds < a \<and> a < dd) \<and> \<not> (ds < b \<and> b < dd)
                 \<longrightarrow> prefixPatched ds dd s2)"
proof -
  from safe have safe_a: "\<forall>(x, y) \<in> R. \<not> (x < a \<and> a < y)"
    and safe_b: "\<forall>(x, y) \<in> R. \<not> (x < b \<and> b < y)" by auto
  from ab le have "a \<le> length (ms_original s)" by simp
  from ms_split_sound [OF sound this safe_a] ab le obtain s1 where
    r1: "ms_split a s = Inr s1" and sound1: "soundBuffer R s1" and ref1: "refined a s s1"
    and st1: "a \<in> c_start ` set (ms_chunks s1)"
    by auto
  from ref1 have o1: "ms_original s1 = ms_original s" by (simp add: refined_def)
  from le o1 have "b \<le> length (ms_original s1)" by simp
  from ms_split_sound [OF sound1 this safe_b] ab obtain s2 where
    r2: "ms_split b s1 = Inr s2" and sound2: "soundBuffer R s2" and ref2: "refined b s1 s2"
    and en2: "b \<in> c_end ` set (ms_chunks s2)"
    by auto
  from ref2 o1 have o2: "ms_original s2 = ms_original s" by (simp add: refined_def)
  from ref2 st1 have st2: "a \<in> c_start ` set (ms_chunks s2)" by (auto simp: refined_def)
  have pp: "\<forall>ds dd. prefixPatched ds dd s \<and> \<not> (ds < a \<and> a < dd) \<and> \<not> (ds < b \<and> b < dd)
                 \<longrightarrow> prefixPatched ds dd s2"
  proof (intro allI impI)
    fix ds dd
    assume h: "prefixPatched ds dd s \<and> \<not> (ds < a \<and> a < dd) \<and> \<not> (ds < b \<and> b < dd)"
    then have "prefixPatched ds dd s1" using prefixPatched_refined [OF _ ref1] by blast
    then show "prefixPatched ds dd s2" using prefixPatched_refined [OF _ ref2] h by blast
  qed
  show ?thesis using r1 r2 sound2 o1 o2 st2 en2 pp
    by (intro exI [of _ s1] exI [of _ s2]) simp
qed

lemma chunk_edit_fields [simp]:
  "c_start (chunk_edit t c) = c_start c" "c_end (chunk_edit t c) = c_end c"
  "c_content (chunk_edit t c) = t" "c_edited (chunk_edit t c)"
  by (simp_all add: chunk_edit_def)

lemma ms_remove_sound:
  assumes sound: "soundBuffer {} s" and ab: "a \<le> b" and le: "b \<le> length (ms_original s)"
  shows "\<exists>s'. ms_remove a b s = Inr s' \<and> soundBuffer {} s' \<and> ms_original s' = ms_original s"
proof (cases "a = b")
  case True
  then show ?thesis using sound by (simp add: ms_remove_def)
next
  case False
  with ab have lt: "a < b" by simp
  from split_both [OF sound lt le] obtain s1 s2 where
    r1: "ms_split a s = Inr s1" and r2: "ms_split b s1 = Inr s2" and sound2: "soundBuffer {} s2"
    and o2: "ms_original s2 = ms_original s"
    and st: "a \<in> c_start ` set (ms_chunks s2)" and en: "b \<in> c_end ` set (ms_chunks s2)"
    by auto
  let ?f = "\<lambda>c. if a \<le> c_start c \<and> c_start c < b then chunk_edit [] c else c"
  let ?s' = "s2\<lparr>ms_chunks := map ?f (ms_chunks s2)\<rparr>"
  from sound2 have cont: "contiguous 0 (ms_chunks s2) (length (ms_original s2))"
    and plain: "\<forall>c \<in> set (ms_chunks s2). \<not> (c_edited c \<and> c_content c \<noteq> [])"
    by (auto simp: soundBuffer_def)
  have res: "ms_remove a b s = Inr ?s'"
    using lt le r1 r2 editFrom_map [OF cont st en lt] by (simp add: ms_remove_def)
  have "contiguous 0 (map ?f (ms_chunks s2)) (length (ms_original s2))"
    using cont by (subst contiguous_map) simp_all
  moreover have "\<forall>c' \<in> set (map ?f (ms_chunks s2)). \<not> (c_edited c' \<and> c_content c' \<noteq> [])"
    using plain by auto
  ultimately have "soundBuffer {} ?s'" by (simp add: soundBuffer_def)
  with res o2 show ?thesis by (intro exI [of _ ?s']) simp
qed

lemma ends_map: "(\<And>c. c_end (f c) = c_end c) \<Longrightarrow> c_end ` set (map f cs) = c_end ` set cs"
  by (simp add: image_image)

lemma compatible_safe:
  assumes "compatible (a, b) (x, y)" "a < b"
  shows "\<not> (x < a \<and> a < y) \<and> \<not> (x < b \<and> b < y)"
  using assms by (auto simp: compatible_def)

lemma ms_overwrite_sound:
  assumes sound: "soundBuffer R s" and lt: "a < b" and le: "b \<le> length (ms_original s)"
    and comp: "\<forall>q \<in> R. compatible (a, b) q"
  shows "\<exists>s'. ms_overwrite a b content s = Inr s' \<and> soundBuffer (insert (a, b) R) s'
           \<and> ms_original s' = ms_original s
           \<and> (\<forall>ds dd. ds < dd \<and> prefixPatched ds dd s \<and> apart (a, b) (ds, dd)
                 \<longrightarrow> prefixPatched ds dd s')
           \<and> (content = DEFAULT_VAR_DECL \<longrightarrow> prefixPatched a b s')"
proof -
  have safe: "\<forall>(x, y) \<in> R. \<not> (x < a \<and> a < y) \<and> \<not> (x < b \<and> b < y)"
    using comp compatible_safe [OF _ lt] by blast
  from split_both [OF sound lt le safe] obtain s1 s2 where
    r1: "ms_split a s = Inr s1" and r2: "ms_split b s1 = Inr s2" and sound2: "soundBuffer R s2"
    and o2: "ms_original s2 = ms_original s"
    and st: "a \<in> c_start ` set (ms_chunks s2)" and en: "b \<in> c_end ` set (ms_chunks s2)"
    and pp2: "\<forall>ds dd. prefixPatched ds dd s \<and> \<not> (ds < a \<and> a < dd) \<and> \<not> (ds < b \<and> b < dd)
                 \<longrightarrow> prefixPatched ds dd s2"
    by blast
  let ?cs = "ms_chunks s2"
  let ?f = "\<lambda>c. if c_start c = a then chunk_edit content c
                 else if a < c_start c \<and> c_start c < b then chunk_edit [] c else c"
  let ?s' = "s2\<lparr>ms_chunks := map ?f ?cs\<rparr>"
  from sound2 have cont: "contiguous 0 ?cs (length (ms_original s2))"
    and ed: "\<forall>c \<in> set ?cs. c_edited c \<and> c_content c \<noteq> [] \<longrightarrow>
               (\<exists>(x, y) \<in> R. x \<le> c_start c \<and> c_end c \<le> y)"
    by (simp_all add: soundBuffer_def)
  have res: "ms_overwrite a b content s = Inr ?s'"
    using lt le r1 r2 overwriteFrom_map [OF cont st en lt] by (simp add: ms_overwrite_def)
  have cont': "contiguous 0 (map ?f ?cs) (length (ms_original s2))"
    using cont by (subst contiguous_map) simp_all
  have ed': "\<forall>c' \<in> set (map ?f ?cs). c_edited c' \<and> c_content c' \<noteq> [] \<longrightarrow>
               (\<exists>(x, y) \<in> insert (a, b) R. x \<le> c_start c' \<and> c_end c' \<le> y)"
  proof (intro ballI impI)
    fix c' assume c': "c' \<in> set (map ?f ?cs)" and e: "c_edited c' \<and> c_content c' \<noteq> []"
    from c' obtain c where c: "c \<in> set ?cs" and eq: "c' = ?f c" by auto
    show "\<exists>(x, y) \<in> insert (a, b) R. x \<le> c_start c' \<and> c_end c' \<le> y"
    proof (cases "c_start c = a")
      case True
      from en obtain d where d: "d \<in> set ?cs" "c_end d = b" by auto
      have "c_end c \<le> b"
        using contiguous_no_straddle [OF cont c d(1)] True lt d(2) by force
      with True eq show ?thesis by simp
    next
      case False
      show ?thesis
      proof (cases "a < c_start c \<and> c_start c < b")
        case True
        with False eq e show ?thesis by simp
      next
        case inner: False
        with False eq have "c' = c" by simp
        with ed c e show ?thesis by auto
      qed
    qed
  qed
  have sound': "soundBuffer (insert (a, b) R) ?s'"
    using cont' ed' by (simp add: soundBuffer_def)
  have keep: "\<forall>ds dd. ds < dd \<and> prefixPatched ds dd s \<and> apart (a, b) (ds, dd)
                 \<longrightarrow> prefixPatched ds dd ?s'"
  proof (intro allI impI)
    fix ds dd assume h: "ds < dd \<and> prefixPatched ds dd s \<and> apart (a, b) (ds, dd)"
    then have ap: "b \<le> ds \<or> dd \<le> a" by (simp add: apart_def)
    with lt h pp2 have p2: "prefixPatched ds dd s2" by auto
    then obtain cD where cD: "cD \<in> set ?cs" "c_start cD = ds" "c_edited cD"
      "c_content cD = DEFAULT_VAR_DECL"
      and rest: "\<forall>c \<in> set ?cs. ds < c_start c \<and> c_start c < dd \<longrightarrow>
                 c_edited c \<and> c_content c = []"
      and stop: "dd \<in> c_end ` set ?cs"
      by (auto simp: prefixPatched_def)
    have "c_end ` set (map ?f ?cs) = c_end ` set ?cs" by (rule ends_map) simp
    with stop have "dd \<in> c_end ` set (ms_chunks ?s')" by simp
    then have third: "\<exists>c \<in> set (ms_chunks ?s'). c_end c = dd" by (auto simp: image_iff)
    from ap lt h cD have "?f cD = cD" by auto
    with cD have "cD \<in> set (map ?f ?cs)" by force
    with cD have first: "\<exists>c \<in> set (ms_chunks ?s'). c_start c = ds \<and> c_edited c
                           \<and> c_content c = DEFAULT_VAR_DECL"
      by auto
    have second: "\<forall>c' \<in> set (ms_chunks ?s'). ds < c_start c' \<and> c_start c' < dd \<longrightarrow>
                  c_edited c' \<and> c_content c' = []"
    proof (intro ballI impI)
      fix c' assume c': "c' \<in> set (ms_chunks ?s')" and rng: "ds < c_start c' \<and> c_start c' < dd"
      from c' obtain c where c: "c \<in> set ?cs" and eq: "c' = ?f c" by auto
      from eq have same: "c_start c' = c_start c" by simp
      with rng ap lt have "?f c = c" by auto
      with eq rest c rng show "c_edited c' \<and> c_content c' = []" by simp
    qed
    from first second third show "prefixPatched ds dd ?s'" by (simp add: prefixPatched_def)
  qed
  have new: "content = DEFAULT_VAR_DECL \<longrightarrow> prefixPatched a b ?s'"
  proof
    assume content: "content = DEFAULT_VAR_DECL"
    from st obtain c where c: "c \<in> set ?cs" "c_start c = a" by auto
    then have "?f c \<in> set (map ?f ?cs)" by (intro imageI [of c "set ?cs" ?f, folded set_map])
    with c content have first: "\<exists>c \<in> set (ms_chunks ?s'). c_start c = a \<and> c_edited c
                           \<and> c_content c = DEFAULT_VAR_DECL"
      by (intro bexI [of _ "?f c"]) simp_all
    have second: "\<forall>c' \<in> set (ms_chunks ?s'). a < c_start c' \<and> c_start c' < b \<longrightarrow>
                  c_edited c' \<and> c_content c' = []"
      by auto
    have "c_end ` set (map ?f ?cs) = c_end ` set ?cs" by (rule ends_map) simp
    with en have "b \<in> c_end ` set (ms_chunks ?s')" by simp
    then have third: "\<exists>c \<in> set (ms_chunks ?s'). c_end c = b" by (auto simp: image_iff)
    from first second third show "prefixPatched a b ?s'" by (simp add: prefixPatched_def)
  qed
  show ?thesis using res sound' o2 keep new
    by (intro exI [of _ ?s']) simp
qed


text \<open>The steps of \<^verbatim>\<open>transformModule\<close>, in the order of the source.\<close>

lemma buildModuleVarNames_resolved:
  "\<forall>imp \<in> set imps. imp_resolvedPath imp \<noteq> None \<Longrightarrow>
     \<exists>names ids. buildModuleVarNames P projectRoot imps acc = Inr (names, ids)"
proof (induction imps arbitrary: acc)
  case Nil
  then show ?case by simp
next
  case (Cons imp imps)
  from Cons.prems obtain p where p: "imp_resolvedPath imp = Some p" by auto
  let ?acc = "if \<not> map_has acc (imp_source imp)
              then AList.update (imp_source imp) (makeVarName (imp_source imp)) acc else acc"
  from Cons.prems have "\<forall>imp \<in> set imps. imp_resolvedPath imp \<noteq> None" by simp
  from Cons.IH [OF this, of ?acc] obtain names ids where
    "buildModuleVarNames P projectRoot imps ?acc = Inr (names, ids)" by blast
  with p show ?case by (simp add: Let_def)
qed

lemma removeImports_sound:
  assumes "\<forall>(imp, modId) \<in> set imps. n_start (imp_node imp) \<le> n_end (imp_node imp)
             \<and> n_end (imp_node imp) \<le> length (ms_original s)"
    and "soundBuffer {} s"
  shows "\<exists>calls' s'. removeImports names imps calls s = Inr (calls', s') \<and> soundBuffer {} s'
           \<and> ms_original s' = ms_original s"
  using assms
proof (induction imps arbitrary: calls s)
  case Nil
  then show ?case by simp
next
  case (Cons x imps)
  obtain imp modId where x: "x = (imp, modId)" by (cases x)
  from Cons.prems(1) x have rng: "n_start (imp_node imp) \<le> n_end (imp_node imp)"
    "n_end (imp_node imp) \<le> length (ms_original s)" by simp_all
  from ms_remove_sound [OF Cons.prems(2) rng] obtain s1 where
    r: "ms_remove (n_start (imp_node imp)) (n_end (imp_node imp)) s = Inr s1"
    and sound1: "soundBuffer {} s1" and o1: "ms_original s1 = ms_original s" by blast
  from Cons.prems(1) o1 have
    "\<forall>(imp, modId) \<in> set imps. n_start (imp_node imp) \<le> n_end (imp_node imp)
             \<and> n_end (imp_node imp) \<le> length (ms_original s1)" by simp
  from Cons.IH [OF this sound1] o1 r x show ?case by (simp add: Let_def)
qed

lemma buffer_addExportGetter [simp]:
  "buffer (addExportGetter P projectRoot path exp st) = buffer st"
  by (simp add: addExportGetter_def Let_def split: option.splits)

lemma transformNamedExports_sound:
  assumes "\<forall>exp \<in> set exps. fst (exportRange exp) \<le> snd (exportRange exp)
             \<and> snd (exportRange exp) \<le> length (ms_original (buffer st))"
    and "soundBuffer {} (buffer st)"
  shows "\<exists>st'. transformNamedExports P projectRoot path exps st = Inr st'
           \<and> soundBuffer {} (buffer st') \<and> ms_original (buffer st') = ms_original (buffer st)"
  using assms
proof (induction exps arbitrary: st)
  case Nil
  then show ?case by simp
next
  case (Cons exp exps)
  from Cons.prems(1) have rng: "fst (exportRange exp) \<le> snd (exportRange exp)"
    "snd (exportRange exp) \<le> length (ms_original (buffer st))" by simp_all
  from ms_remove_sound [OF Cons.prems(2) rng] obtain s1 where
    r: "ms_remove (fst (exportRange exp)) (snd (exportRange exp)) (buffer st) = Inr s1"
    and sound1: "soundBuffer {} s1" and o1: "ms_original s1 = ms_original (buffer st)" by blast
  let ?st1 = "addExportGetter P projectRoot path exp (st\<lparr>buffer := s1\<rparr>)"
  have step: "transformNamedExport P projectRoot path exp st = Inr ?st1"
    using r by (simp add: transformNamedExport_def exportRange_def split: option.splits)
  have b1: "buffer ?st1 = s1" by simp
  from Cons.prems(1) o1 b1 have
    "\<forall>exp \<in> set exps. fst (exportRange exp) \<le> snd (exportRange exp)
             \<and> snd (exportRange exp) \<le> length (ms_original (buffer ?st1))" by simp
  from Cons.IH [OF this] sound1 b1 obtain st' where
    "transformNamedExports P projectRoot path exps ?st1 = Inr st'"
    "soundBuffer {} (buffer st')" "ms_original (buffer st') = ms_original (buffer ?st1)"
    by auto
  with step o1 b1 show ?case by simp
qed

lemma soundBuffer_mono: "soundBuffer R s \<Longrightarrow> R \<subseteq> R' \<Longrightarrow> soundBuffer R' s"
  unfolding soundBuffer_def by fast

lemma transformDefaultExport_sound:
  assumes anon: "anonymousDefault m defNode decl"
    and sound: "soundBuffer {} (buffer st)"
    and rng: "n_start defNode < decl_start decl"
      "decl_start decl \<le> length (ms_original (buffer st))"
  shows "\<exists>st'. transformDefaultExport m st = Inr st'
           \<and> exportGetters st' = exportGetters st @ [defaultGetter]
           \<and> moduleVarNames st' = moduleVarNames st \<and> loadModuleCalls st' = loadModuleCalls st
           \<and> soundBuffer {(n_start defNode, decl_start decl)} (buffer st')
           \<and> prefixPatched (n_start defNode) (decl_start decl) (buffer st')
           \<and> ms_original (buffer st') = ms_original (buffer st)"
proof -
  let ?a = "n_start defNode" and ?b = "decl_start decl"
  from anon have has: "hasDefault m" and node: "defaultNode m = Some (defNode, decl)"
    and kind: "defaultType m = Some DefaultExpression
          \<or> (defaultType m = Some DefaultDeclaration \<and> \<not> truthy (decl_id decl))"
    by (simp_all add: anonymousDefault_def)
  from kind show ?thesis
  proof
    assume ty: "defaultType m = Some DefaultExpression"
    from ms_overwrite_sound [OF sound rng, of DEFAULT_VAR_DECL] obtain s' where
      r: "ms_overwrite ?a ?b DEFAULT_VAR_DECL (buffer st) = Inr s'"
      and s': "soundBuffer {(?a, ?b)} s'" "ms_original s' = ms_original (buffer st)"
        "prefixPatched ?a ?b s'"
      by auto
    let ?st' = "st\<lparr>exportGetters := exportGetters st @ [defaultGetter], buffer := s'\<rparr>"
    have "transformDefaultExport m st = Inr ?st'"
      using has node ty r by (simp add: transformDefaultExport_def)
    with s' show ?thesis by (intro exI [of _ ?st']) simp
  next
    assume ty: "defaultType m = Some DefaultDeclaration \<and> \<not> truthy (decl_id decl)"
    from rng have le: "?a \<le> ?b" by simp
    from ms_remove_sound [OF sound le rng(2)] obtain s1 where
      r1: "ms_remove ?a ?b (buffer st) = Inr s1" and sound1: "soundBuffer {} s1"
      and o1: "ms_original s1 = ms_original (buffer st)" by blast
    from rng(2) o1 have le1: "?b \<le> length (ms_original s1)" by simp
    from ms_overwrite_sound [OF sound1 rng(1) le1, of DEFAULT_VAR_DECL] obtain s' where
      r: "ms_overwrite ?a ?b DEFAULT_VAR_DECL s1 = Inr s'"
      and s': "soundBuffer {(?a, ?b)} s'" "ms_original s' = ms_original s1"
        "prefixPatched ?a ?b s'"
      by auto
    let ?st' = "st\<lparr>exportGetters := exportGetters st @ [defaultGetter], buffer := s'\<rparr>"
    have "transformDefaultExport m st = Inr ?st'"
      using has node ty r1 r by (simp add: transformDefaultExport_def)
    with s' o1 show ?thesis by (intro exI [of _ ?st']) simp
  qed
qed

lemma overwrite_patched:
  assumes disc: "orderly Q ds dd n" and inv: "patched Q ds dd n s" and mem: "(a, b) \<in> Q"
  shows "\<exists>s'. ms_overwrite a b content s = Inr s' \<and> patched Q ds dd n s'"
proof -
  from disc mem have lt: "a < b" and le: "b \<le> n" and ap: "apart (a, b) (ds, dd)"
    and comp: "\<forall>q \<in> Q. compatible (a, b) q" and dsdd: "ds < dd"
    by (auto simp: orderly_def)
  from inv have sound: "soundBuffer (insert (ds, dd) Q) s" and pp: "prefixPatched ds dd s"
    and n: "length (ms_original s) = n" by (simp_all add: patched_def)
  from ap have "compatible (a, b) (ds, dd)" by (simp add: compatible_def apart_def)
  with comp have comp': "\<forall>q \<in> insert (ds, dd) Q. compatible (a, b) q" by simp
  from le n have le': "b \<le> length (ms_original s)" by simp
  from ms_overwrite_sound [OF sound lt le' comp', of content] obtain s' where
    r: "ms_overwrite a b content s = Inr s'"
    and s': "soundBuffer (insert (a, b) (insert (ds, dd) Q)) s'"
      "ms_original s' = ms_original s"
    and keep: "\<forall>ds dd. ds < dd \<and> prefixPatched ds dd s \<and> apart (a, b) (ds, dd)
                 \<longrightarrow> prefixPatched ds dd s'"
    by blast
  from mem have "insert (a, b) (insert (ds, dd) Q) = insert (ds, dd) Q" by auto
  with s' keep dsdd pp ap n have "patched Q ds dd n s'" by (simp add: patched_def)
  with r show ?thesis by blast
qed

lemma applyReplacements_patched:
  assumes "orderly Q ds dd n" and "patched Q ds dd n s"
    and "\<forall>r \<in> set rs. (r_start r, r_end r) \<in> Q"
  shows "\<exists>s'. applyReplacements rs s = Inr s' \<and> patched Q ds dd n s'"
  using assms
proof (induction rs arbitrary: s)
  case Nil
  then show ?case by simp
next
  case (Cons r rs)
  from Cons.prems(3) have mem: "(r_start r, r_end r) \<in> Q" by simp
  from overwrite_patched [OF Cons.prems(1,2) mem, of "r_text r"] obtain s1 where
    r1: "ms_overwrite (r_start r) (r_end r) (r_text r) s = Inr s1" and inv1: "patched Q ds dd n s1"
    by blast
  from Cons.prems(3) have "\<forall>r \<in> set rs. (r_start r, r_end r) \<in> Q" by simp
  from Cons.IH [OF Cons.prems(1) inv1 this] r1 show ?case by simp
qed

lemma transformDynamicImports_patched:
  assumes "orderly Q ds dd n" and "patched Q ds dd n s"
    and "\<forall>dyn \<in> set dyns. truthy (dyn_resolvedPath dyn)
            \<longrightarrow> (n_start (dyn_node dyn), n_end (dyn_node dyn)) \<in> Q"
  shows "\<exists>s'. transformDynamicImports P projectRoot dyns s = Inr s' \<and> patched Q ds dd n s'"
  using assms
proof (induction dyns arbitrary: s)
  case Nil
  then show ?case by simp
next
  case (Cons dyn dyns)
  from Cons.prems(3) have rest: "\<forall>dyn \<in> set dyns. truthy (dyn_resolvedPath dyn)
            \<longrightarrow> (n_start (dyn_node dyn), n_end (dyn_node dyn)) \<in> Q" by simp
  show ?case
  proof (cases "truthy (dyn_resolvedPath dyn)")
    case False
    then have "transformDynamicImports P projectRoot (dyn # dyns) s
                 = transformDynamicImports P projectRoot dyns s"
      by (auto simp: truthy_def split: option.splits)
    with Cons.IH [OF Cons.prems(1,2) rest] show ?thesis by simp
  next
    case True
    then obtain p where p: "dyn_resolvedPath dyn = Some p" "p \<noteq> []"
      by (auto simp: truthy_def split: option.splits)
    from True Cons.prems(3) have mem: "(n_start (dyn_node dyn), n_end (dyn_node dyn)) \<in> Q" by simp
    let ?t = "dynamicImportCall (toChunkId (toModuleId P p projectRoot)) (toModuleId P p projectRoot)"
    from overwrite_patched [OF Cons.prems(1,2) mem, of ?t] obtain s1 where
      r1: "ms_overwrite (n_start (dyn_node dyn)) (n_end (dyn_node dyn)) ?t s = Inr s1"
      and inv1: "patched Q ds dd n s1" by blast
    from Cons.IH [OF Cons.prems(1) inv1 rest] r1 p show ?thesis by (simp add: Let_def)
  qed
qed

lemma identifierCallback_range:
  assumes "identifierCallback bindings names node ancestors = Some r"
  shows "map_of bindings (n_name node) \<noteq> None
           \<and> r_start r = n_start (n_range node) \<and> r_end r = n_end (n_range node)"
proof -
  have "identifierCallback bindings names node ancestors = None
          \<or> (map_of bindings (n_name node) \<noteq> None
              \<and> (\<exists>t. identifierCallback bindings names node ancestors
                     = Some \<lparr>r_start = n_start (n_range node), r_end = n_end (n_range node),
                             r_text = t\<rparr>))"
    by (simp add: identifierCallback_def Let_def split: option.splits)
  with assms show ?thesis by auto
qed

lemma collectReplacements_ranges:
  assumes "r \<in> set (collectReplacements (importedBindings m) names (identifier_visits (module_ast m)))"
  shows "(r_start r, r_end r) \<in> set (identifierRanges m)"
proof -
  from assms obtain node ancestors where
    v: "(node, ancestors) \<in> set (identifier_visits (module_ast m))"
    and cb: "identifierCallback (importedBindings m) names node ancestors = Some r"
    by (auto simp: collectReplacements_def map_filter_def)
  from identifierCallback_range [OF cb] v show ?thesis
    by (force simp: identifierRanges_def)
qed


text \<open>What a patched buffer prints for the prefix.\<close>

lemma concat_filter_empty:
  "\<forall>c \<in> set cs. P c \<longrightarrow> c_content c = [] \<Longrightarrow> concat (map c_content (filter P cs)) = []"
  by (induction cs) auto

lemma contiguous_rendered:
  assumes "contiguous a cs b" and "cD \<in> set cs" and "c_start cD = ds" and "ds < dd"
    and "\<forall>c \<in> set cs. ds < c_start c \<and> c_start c < dd \<longrightarrow> c_content c = []"
  shows "concat (map c_content (filter (\<lambda>c. ds \<le> c_start c \<and> c_start c < dd) cs)) = c_content cD"
  using assms
proof (induction cs arbitrary: a)
  case Nil
  then show ?case by simp
next
  case (Cons x xs)
  from Cons.prems(1) have rest: "contiguous (c_end x) xs b" and x: "c_start x < c_end x" by auto
  note bnd = contiguous_bounds [OF rest]
  show ?case
  proof (cases "c_start x = ds")
    case True
    have "cD = x"
    proof (rule ccontr)
      assume "cD \<noteq> x"
      with Cons.prems(2) have "cD \<in> set xs" by simp
      with bnd [of cD] x True Cons.prems(3) show False by simp
    qed
    have "\<forall>c \<in> set xs. ds \<le> c_start c \<and> c_start c < dd \<longrightarrow> c_content c = []"
    proof (intro ballI impI)
      fix c assume c: "c \<in> set xs" and "ds \<le> c_start c \<and> c_start c < dd"
      with bnd [of c] x True have "ds < c_start c \<and> c_start c < dd" by simp
      with Cons.prems(5) c show "c_content c = []" by simp
    qed
    from concat_filter_empty [OF this] True Cons.prems(4) \<open>cD = x\<close> show ?thesis by simp
  next
    case False
    with Cons.prems(2,3) have mem: "cD \<in> set xs" by auto
    from bnd [of cD] mem x Cons.prems(3) have "c_start x < ds" by simp
    moreover from Cons.prems(5) have
      "\<forall>c \<in> set xs. ds < c_start c \<and> c_start c < dd \<longrightarrow> c_content c = []" by simp
    ultimately show ?thesis using Cons.IH [OF rest mem Cons.prems(3,4)] by simp
  qed
qed

lemma patched_rendered:
  assumes "patched Q ds dd n s" and "ds < dd"
  shows "renderedRange ds dd s = Some DEFAULT_VAR_DECL"
proof -
  from assms(1) have cont: "contiguous 0 (ms_chunks s) (length (ms_original s))"
    and pp: "prefixPatched ds dd s"
    unfolding patched_def soundBuffer_def by blast+
  from pp obtain cD where cD: "cD \<in> set (ms_chunks s)" "c_start cD = ds"
    "c_content cD = DEFAULT_VAR_DECL"
    and rest: "\<forall>c \<in> set (ms_chunks s). ds < c_start c \<and> c_start c < dd \<longrightarrow> c_content c = []"
    and stop: "\<exists>c \<in> set (ms_chunks s). c_end c = dd"
    by (auto simp: prefixPatched_def)
  from cD stop have "list_ex (\<lambda>c. c_start c = ds) (ms_chunks s)"
    "list_ex (\<lambda>c. c_end c = dd) (ms_chunks s)"
    by (auto simp: list_ex_iff)
  with contiguous_rendered [OF cont cD(1,2) assms(2) rest] cD(3) show ?thesis
    by (simp add: renderedRange_def)
qed

lemma soundBuffer_newMagicString: "src \<noteq> [] \<Longrightarrow> soundBuffer {} (newMagicString src)"
  by (simp add: soundBuffer_def newMagicString_def)

text \<open>
  The default-export step on well-formed edits.  For a module whose default export is an
  anonymous function or class, or an expression, the transformer goes through all its
  steps without an error and \<^verbatim>\<open>transformModule\<close> returns the factory body built from
  the final state; the getter pushed last targets \<^verbatim>\<open>__default_export__\<close>; and for the
  range from the start of the export statement to the start of its declaration the final
  buffer prints \<^verbatim>\<open>var __default_export__ = \<close>.  For an anonymous declaration the
  transformer first removes that range and then overwrites it, which the buffer accepts
  since the removed chunk holds no text.  The lemma is about that range, whatever text of
  the source it holds.
\<close>

lemma anonymous_default_export_range_patched:
  assumes anon: "anonymousDefault m defNode decl"
    and wf: "wellFormedEdits m (n_start defNode) (decl_start decl)"
  shows "\<exists>st. transformSteps P projectRoot m = Inr st
           \<and> transformModule P m projectRoot = Inr (buildFactoryBody m st)
           \<and> exportGetters st \<noteq> [] \<and> last (exportGetters st) = defaultGetter
           \<and> renderedRange (n_start defNode) (decl_start decl) (buffer st) = Some DEFAULT_VAR_DECL"
proof -
  let ?ds = "n_start defNode" and ?dd = "decl_start decl" and ?n = "length (source m)"
  let ?Q = "set (identifierRanges m @ dynamicRanges m)"
  from wf have resolved: "\<forall>imp \<in> set (static_imports m). imp_resolvedPath imp \<noteq> None"
    and removed: "\<forall>(a, b) \<in> set (removedRanges m). a \<le> b \<and> b \<le> ?n"
    and dd: "?dd \<le> ?n" and ord: "orderly ?Q ?ds ?dd ?n"
    by (simp_all add: wellFormedEdits_def)
  from ord have lt: "?ds < ?dd" by (simp add: orderly_def)
  with dd have "source m \<noteq> []" by auto
  then have sound0: "soundBuffer {} (newMagicString (source m))"
    by (rule soundBuffer_newMagicString)
  have o0: "ms_original (newMagicString (source m)) = source m"
    by (simp add: newMagicString_def)
  from buildModuleVarNames_resolved [OF resolved] obtain names ids where
    step1: "buildModuleVarNames P projectRoot (static_imports m) [] = Inr (names, ids)" by blast
  have "\<forall>(imp, modId) \<in> set (zip (static_imports m) ids).
          n_start (imp_node imp) \<le> n_end (imp_node imp)
          \<and> n_end (imp_node imp) \<le> length (ms_original (newMagicString (source m)))"
  proof (intro ballI, clarify)
    fix imp modId assume "(imp, modId) \<in> set (zip (static_imports m) ids)"
    then have "imp \<in> set (static_imports m)" by (rule set_zip_leftD)
    then have "(n_start (imp_node imp), n_end (imp_node imp)) \<in> set (removedRanges m)"
      by (force simp: removedRanges_def)
    with removed o0 show "n_start (imp_node imp) \<le> n_end (imp_node imp)
          \<and> n_end (imp_node imp) \<le> length (ms_original (newMagicString (source m)))"
      by auto
  qed
  from removeImports_sound [OF this sound0, of names "[]"] o0 obtain calls s1 where
    step2: "removeImports names (zip (static_imports m) ids) [] (newMagicString (source m))
              = Inr (calls, s1)"
    and sound1: "soundBuffer {} s1" and o1: "ms_original s1 = source m" by auto
  let ?st0 = "\<lparr>moduleVarNames = names, loadModuleCalls = calls, exportGetters = [], buffer = s1\<rparr>"
  have "\<forall>exp \<in> set (named m). fst (exportRange exp) \<le> snd (exportRange exp)
             \<and> snd (exportRange exp) \<le> length (ms_original (buffer ?st0))"
  proof
    fix exp assume "exp \<in> set (named m)"
    then have "exportRange exp \<in> set (removedRanges m)" by (simp add: removedRanges_def)
    with removed o1 show "fst (exportRange exp) \<le> snd (exportRange exp)
             \<and> snd (exportRange exp) \<le> length (ms_original (buffer ?st0))"
      by (cases "exportRange exp") auto
  qed
  from transformNamedExports_sound [OF this, of P projectRoot "filePath m"] sound1 o1
  obtain st1 where
    step3: "transformNamedExports P projectRoot (filePath m) (named m) ?st0 = Inr st1"
    and sound3: "soundBuffer {} (buffer st1)" and o3: "ms_original (buffer st1) = source m"
    by auto
  from dd o3 have dd3: "?dd \<le> length (ms_original (buffer st1))" by simp
  from transformDefaultExport_sound [OF anon sound3 lt dd3] o3 obtain st2 where
    step4: "transformDefaultExport m st1 = Inr st2"
    and getters: "exportGetters st2 = exportGetters st1 @ [defaultGetter]"
    and sound4: "soundBuffer {(?ds, ?dd)} (buffer st2)"
    and pp4: "prefixPatched ?ds ?dd (buffer st2)"
    and o4: "ms_original (buffer st2) = source m"
    by auto
  have inv4: "patched ?Q ?ds ?dd ?n (buffer st2)"
    using soundBuffer_mono [OF sound4, of "insert (?ds, ?dd) ?Q"] pp4 o4
    by (simp add: patched_def)
  let ?rs = "collectReplacements (importedBindings m) (moduleVarNames st2)
               (identifier_visits (module_ast m))"
  have "\<forall>r \<in> set ?rs. (r_start r, r_end r) \<in> ?Q"
    using collectReplacements_ranges [of _ m "moduleVarNames st2"] by auto
  from applyReplacements_patched [OF ord inv4 this] obtain s5 where
    step5: "applyReplacements ?rs (buffer st2) = Inr s5"
    and inv5: "patched ?Q ?ds ?dd ?n s5" by blast
  have "\<forall>dyn \<in> set (dynamicImports m). truthy (dyn_resolvedPath dyn)
            \<longrightarrow> (n_start (dyn_node dyn), n_end (dyn_node dyn)) \<in> ?Q"
    by (force simp: dynamicRanges_def)
  from transformDynamicImports_patched [OF ord inv5 this, of P projectRoot] obtain s6 where
    step6: "transformDynamicImports P projectRoot (dynamicImports m) s5 = Inr s6"
    and inv6: "patched ?Q ?ds ?dd ?n s6" by blast
  let ?st = "st2\<lparr>buffer := s6\<rparr>"
  have steps: "transformSteps P projectRoot m = Inr ?st"
    using step1 step2 step3 step4 step5 step6 by (simp add: transformSteps_def)
  then have whole: "transformModule P m projectRoot = Inr (buildFactoryBody m ?st)"
    by (simp add: transformModule_def)
  have "renderedRange ?ds ?dd (buffer ?st) = Some DEFAULT_VAR_DECL"
    using patched_rendered [OF inv6 lt] by simp
  with steps whole getters show ?thesis
    by (intro exI [of _ ?st]) simp
qed

text \<open>
  The lemma at \<open>anonModule\<close>, where the range holds \<^verbatim>\<open>export default \<close>, with
  the factory body that \<^verbatim>\<open>transformModule\<close> returns for it.
\<close>

lemma anonymous_default_export_range_patched_example:
  "map_sum id (\<lambda>st. (last (exportGetters st), renderedRange 28 43 (buffer st)))
     (transformSteps posixPath ''/p'' anonModule)
     = Inr (defaultGetter, Some DEFAULT_VAR_DECL)
   \<and> transformModule posixPath anonModule ''/p''
     = Inr (join (NL @ NL)
              [''loadModule.markAsESModule(exports);'',
               ''loadModule.defineExports(exports, {'' @ NL @
               ''    '' @ DQ @ ''default'' @ DQ @ '': () => __default_export__'' @ NL @ ''});'',
               ''var _m_ = loadModule('' @ DQ @ ''./m.js'' @ DQ @ '');'',
               ''var __default_export__ = function () { return _m_.a; }''])"
proof -
  let ?defNode = "\<lparr>n_start = 28, n_end = 68\<rparr>"
  let ?decl = "\<lparr>decl_type = ''FunctionDeclaration'', decl_id = None, decl_start = 43\<rparr>"
  have anon: "anonymousDefault anonModule ?defNode ?decl"
    by code_simp
  have wf: "wellFormedEdits anonModule (n_start ?defNode) (decl_start ?decl)"
    by code_simp
  from anonymous_default_export_range_patched [OF anon wf, of posixPath "''/p''"]
  obtain st where steps: "transformSteps posixPath ''/p'' anonModule = Inr st"
    and whole: "transformModule posixPath anonModule ''/p'' = Inr (buildFactoryBody anonModule st)"
    and getter: "last (exportGetters st) = defaultGetter"
    and prefix: "renderedRange 28 43 (buffer st) = Some DEFAULT_VAR_DECL"
    by auto
  have first: "map_sum id (\<lambda>st. (last (exportGetters st), renderedRange 28 43 (buffer st)))
     (transformSteps posixPath ''/p'' anonModule)
     = Inr (defaultGetter, Some DEFAULT_VAR_DECL)"
    using steps getter prefix by simp
  have "map_sum id (buildFactoryBody anonModule) (transformSteps posixPath ''/p'' anonModule)
     = Inr (join (NL @ NL)
              [''loadModule.markAsESModule(exports);'',
               ''loadModule.defineExports(exports, {'' @ NL @
               ''    '' @ DQ @ ''default'' @ DQ @ '': () => __default_export__'' @ NL @ ''});'',
               ''var _m_ = loadModule('' @ DQ @ ''./m.js'' @ DQ @ '');'',
               ''var __default_export__ = function () { return _m_.a; }''])"
    by code_simp
  with steps whole have second: "transformModule posixPath anonModule ''/p''
     = Inr (join (NL @ NL)
              [''loadModule.markAsESModule(exports);'',
               ''loadModule.defineExports(exports, {'' @ NL @
               ''    '' @ DQ @ ''default'' @ DQ @ '': () => __default_export__'' @ NL @ ''});'',
               ''var _m_ = loadModule('' @ DQ @ ''./m.js'' @ DQ @ '');'',
               ''var __default_export__ = function () { return _m_.a; }''])"
    by simp
  from first second show ?thesis by (rule conjI)
qed

text \<open>
  C5 at \<open>parenModule\<close>.  The default export is an expression, the range from the start
  of the export statement to the start of its declaration holds
  \<^verbatim>\<open>export default (\<close>, and the overwrite takes the opening parenthesis with the
  prefix: the factory body ends with \<^verbatim>\<open>var __default_export__ = _m_.add);\<close>, which
  is no statement.  Nothing is thrown and the getter targets
  \<^verbatim>\<open>__default_export__\<close>.
\<close>

theorem default_export_prefix_takes_parenthesis:
  "hasDefault parenModule \<and> defaultType parenModule = Some DefaultExpression
   \<and> map_option (\<lambda>(defNode, decl).
          take (decl_start decl - n_start defNode) (drop (n_start defNode) (source parenModule)))
        (defaultNode parenModule)
     = Some ''export default (''
   \<and> map_sum id (\<lambda>st. map getter (exportGetters st)) (transformSteps posixPath ''/p'' parenModule)
     = Inr [''() => __default_export__'']
   \<and> transformModule posixPath parenModule ''/p''
     = Inr (''loadModule.markAsESModule(exports);'' @ [CHR 0x0A, CHR 0x0A] @
            ''loadModule.defineExports(exports, {'' @ [CHR 0x0A] @
            ''    '' @ [CHR 0x22] @ ''default'' @ [CHR 0x22] @ '': () => __default_export__'' @
            [CHR 0x0A] @ ''});'' @ [CHR 0x0A, CHR 0x0A] @
            ''var _m_ = loadModule('' @ [CHR 0x22] @ ''./m.js'' @ [CHR 0x22] @ '');'' @
            [CHR 0x0A, CHR 0x0A] @
            ''var __default_export__ = _m_.add);'')"
  by code_simp

section \<open>Emitted files\<close>

text \<open>
  C6 at a project whose entry imports \<^verbatim>\<open>./a.b.js\<close> and \<^verbatim>\<open>./a/b.js\<close> dynamically
  (\<open>clashSnap\<close>): both targets get the chunk id \<^verbatim>\<open>a_b_js\<close>, the second lazy
  chunk replaces the first in the map, and no emitted file holds a factory for
  \<^verbatim>\<open>./a.b.js\<close>, although the graph builder has reached it.
\<close>

theorem clashing_chunk_ids_drop_module:
  "map_sum id (map fst) (buildDependencyGraph posixPath clashAcorn clashSnap ''/p/index.js'')
     = Inr [''/p/index.js'', ''/p/a.b.js'', ''/p/a/b.js'']
   \<and> map_sum id fileContents (runBundler posixPath clashAcorn clashSnap ''/p/index.js'' ''/p'')
     = Inr [(''main.js'', [''./index.js'']), (''a_b_js.js'', [''./a/b.js''])]
   \<and> map_sum id (\<lambda>files. ''./a.b.js'' \<in> set (emittedModuleIds files))
       (runBundler posixPath clashAcorn clashSnap ''/p/index.js'' ''/p'')
     = Inr False"
  by code_simp



section \<open>Module loader: cache first, each factory once\<close>

lemma evolves_refl: "evolves rt rt"
  by (simp add: evolves_def)

lemma evolves_trans: "evolves a b \<Longrightarrow> evolves b c \<Longrightarrow> evolves a c"
  by (auto simp: evolves_def)

lemma evolves_defineExport: "evolves rt (defineExport self k v rt)"
proof (cases "map_of (moduleCache rt) self")
  case None
  then show ?thesis by (simp add: defineExport_def evolves_def)
next
  case (Some m)
  then have "self \<in> fst ` set (moduleCache rt)"
    by (metis domI dom_map_of_conv_image_fst)
  then show ?thesis
    using Some by (auto simp: defineExport_def evolves_def keys_alist_update onceEach_def)
qed

lemma evolves_enter:
  assumes "map_of (moduleCache rt) modId = None"
  shows "evolves rt (rt\<lparr>moduleCache := AList.update modId m (moduleCache rt),
                        invoked := invoked rt @ [modId]\<rparr>)"
    and "evolves rt (rt\<lparr>moduleCache := AList.update modId m (moduleCache rt)\<rparr>)"
proof -
  have notin: "modId \<notin> fst ` set (moduleCache rt)"
    using assms by (simp add: map_of_eq_None_iff)
  show "evolves rt (rt\<lparr>moduleCache := AList.update modId m (moduleCache rt),
                        invoked := invoked rt @ [modId]\<rparr>)"
    using notin by (auto simp: evolves_def keys_alist_update onceEach_def)
  show "evolves rt (rt\<lparr>moduleCache := AList.update modId m (moduleCache rt)\<rparr>)"
    using notin by (auto simp: evolves_def keys_alist_update onceEach_def)
qed

lemma loader_evolves:
  "(\<forall>out rt'. loadModule n modId rt = Some (out, rt') \<longrightarrow> evolves rt rt')"
  "(\<forall>out rt'. runFactory n self stmts rt = Some (out, rt') \<longrightarrow> evolves rt rt')"
proof (induction n modId rt and n self stmts rt rule: loadModule_runFactory.induct)
  case (1 modId rt)
  show ?case by simp
next
  case (2 n modId rt)
  show ?case
  proof (intro allI impI)
    fix out rt'
    assume run: "loadModule (Suc n) modId rt = Some (out, rt')"
    show "evolves rt rt'"
    proof (cases "map_of (moduleCache rt) modId")
      case (Some m)
      with run show ?thesis by (simp add: evolves_refl)
    next
      case None
      define rt1 where "rt1 = rt\<lparr>moduleCache := AList.update modId \<lparr>m_exports = []\<rparr> (moduleCache rt)\<rparr>"
      show ?thesis
      proof (cases "map_of (moduleRegistry rt1) modId")
        case noFactory: None
        with run None have "rt' = rt1" by (simp add: rt1_def Let_def)
        then show ?thesis using evolves_enter(2) [OF None] by (simp add: rt1_def)
      next
        case (Some factory)
        define rt1' where "rt1' = rt1\<lparr>invoked := invoked rt1 @ [modId]\<rparr>"
        from run None Some obtain o2 where
          inner: "runFactory n modId factory rt1' = Some (o2, rt')"
          by (auto simp: rt1_def rt1'_def Let_def split: option.splits sum.splits prod.splits)
        from "2.IH" [OF None rt1_def Some] inner have "evolves rt1' rt'"
          by (simp add: rt1'_def)
        moreover have "evolves rt rt1'"
          using evolves_enter(1) [OF None] by (simp add: rt1'_def rt1_def)
        ultimately show ?thesis by (rule evolves_trans [rotated])
      qed
    qed
  qed
next
  case (3 n self rt)
  show ?case by (simp add: evolves_refl)
next
  case (4 n self dep rest rt)
  show ?case
  proof (intro allI impI)
    fix out rt'
    assume run: "runFactory n self (Load dep # rest) rt = Some (out, rt')"
    then obtain o1 rt1 where l: "loadModule n dep rt = Some (o1, rt1)"
      by (cases "loadModule n dep rt") auto
    with "4.IH"(1) have e1: "evolves rt rt1" by simp
    show "evolves rt rt'"
    proof (cases o1)
      case (Inl e)
      with run l show ?thesis using e1 by simp
    next
      case (Inr ex)
      with run l have "runFactory n self rest rt1 = Some (out, rt')" by simp
      with "4.IH"(2) [OF l [symmetric, THEN sym] refl Inr] have "evolves rt1 rt'" by simp
      with e1 show ?thesis by (rule evolves_trans)
    qed
  qed
next
  case (5 n self k v rest rt)
  then show ?case
    using evolves_defineExport [of rt self k v] by (auto intro: evolves_trans)
next
  case (6 n self msg rest rt)
  show ?case by (simp add: evolves_refl)
qed


lemma finite_pendingModules: "finite (pendingModules rt)"
  by (simp add: pendingModules_def)

lemma evolves_pending: "evolves rt rt' \<Longrightarrow> card (pendingModules rt') \<le> card (pendingModules rt)"
  by (intro card_mono finite_pendingModules) (auto simp: evolves_def pendingModules_def)

lemma pending_enter:
  assumes "map_of (moduleCache rt) modId = None" "map_of (moduleRegistry rt) modId = Some factory"
  shows "card (pendingModules (rt\<lparr>moduleCache := AList.update modId m (moduleCache rt),
                                     invoked := invoked rt @ [modId]\<rparr>))
         < card (pendingModules rt)"
proof -
  have "modId \<in> fst ` set (moduleRegistry rt)"
    using assms(2) by (metis domI dom_map_of_conv_image_fst)
  moreover have "modId \<notin> fst ` set (moduleCache rt)"
    using assms(1) by (simp add: map_of_eq_None_iff)
  ultimately have "pendingModules (rt\<lparr>moduleCache := AList.update modId m (moduleCache rt),
                                     invoked := invoked rt @ [modId]\<rparr>) \<subset> pendingModules rt"
    by (auto simp: pendingModules_def keys_alist_update)
  then show ?thesis by (intro psubset_card_mono finite_pendingModules)
qed

lemma loader_returns:
  "card (pendingModules rt) < n \<longrightarrow> loadModule n modId rt \<noteq> None"
  "card (pendingModules rt) < n \<longrightarrow> runFactory n self stmts rt \<noteq> None"
proof (induction n modId rt and n self stmts rt rule: loadModule_runFactory.induct)
  case (1 modId rt)
  show ?case by simp
next
  case (2 n modId rt)
  show ?case
  proof
    assume fuel: "card (pendingModules rt) < Suc n"
    show "loadModule (Suc n) modId rt \<noteq> None"
    proof (cases "map_of (moduleCache rt) modId")
      case (Some m)
      then show ?thesis by simp
    next
      case None
      define rt1 where "rt1 = rt\<lparr>moduleCache := AList.update modId \<lparr>m_exports = []\<rparr> (moduleCache rt)\<rparr>"
      show ?thesis
      proof (cases "map_of (moduleRegistry rt1) modId")
        case noFactory: None
        with None show ?thesis by (simp add: rt1_def Let_def)
      next
        case (Some factory)
        define rt1' where "rt1' = rt1\<lparr>invoked := invoked rt1 @ [modId]\<rparr>"
        from Some have "map_of (moduleRegistry rt) modId = Some factory" by (simp add: rt1_def)
        from pending_enter [OF None this, of "\<lparr>m_exports = []\<rparr>"] fuel
        have "card (pendingModules rt1') < n"
          by (simp add: rt1'_def rt1_def)
        with "2.IH" [OF None rt1_def Some] have "runFactory n modId factory rt1' \<noteq> None"
          by (simp add: rt1'_def)
        with None Some show ?thesis
          by (auto simp: rt1_def rt1'_def Let_def split: option.splits sum.splits prod.splits)
      qed
    qed
  qed
next
  case (3 n self rt)
  show ?case by simp
next
  case (4 n self dep rest rt)
  show ?case
  proof
    assume fuel: "card (pendingModules rt) < n"
    with "4.IH"(1) obtain o1 rt1 where l: "loadModule n dep rt = Some (o1, rt1)"
      by (cases "loadModule n dep rt") auto
    with loader_evolves(1) have "evolves rt rt1" by blast
    from evolves_pending [OF this] fuel have fuel1: "card (pendingModules rt1) < n" by simp
    show "runFactory n self (Load dep # rest) rt \<noteq> None"
    proof (cases o1)
      case (Inl e)
      with l show ?thesis by simp
    next
      case (Inr ex)
      with "4.IH"(2) [OF l [symmetric, THEN sym] refl Inr] fuel1 l show ?thesis by simp
    qed
  qed
next
  case (5 n self k v rest rt)
  show ?case
  proof
    assume fuel: "card (pendingModules rt) < n"
    from evolves_pending [OF evolves_defineExport [of rt self k v]] fuel
    have "card (pendingModules (defineExport self k v rt)) < n" by simp
    with "5.IH" show "runFactory n self (Define k v # rest) rt \<noteq> None" by simp
  qed
next
  case (6 n self msg rest rt)
  show ?case by simp
qed

text \<open>
  C7.  (1) A cached id returns the cached module's exports and leaves the state as it
  was: no factory is invoked.  (2) For an id that is registered and not cached, the
  factory runs in the state in which the cache already holds the new module with empty
  exports, and the call returns the exports of that module as they are when the factory
  has returned.  (3) A call keeps the log of factory calls sound: no factory runs twice,
  whatever the calls made before.  (4) A call returns as soon as its recursion budget
  exceeds the number of registered modules that are not cached, cyclic imports included.
\<close>

theorem module_loader_contract:
  "(map_of (moduleCache rt) modId = Some m \<longrightarrow>
      loadModule (Suc n) modId rt = Some (Inr (m_exports m), rt))
   \<and> (map_of (moduleCache rt) modId = None \<and> map_of (moduleRegistry rt) modId = Some factory \<longrightarrow>
        loadModule (Suc n) modId rt =
          (case runFactory n modId factory
                  (rt\<lparr>moduleCache := AList.update modId \<lparr>m_exports = []\<rparr> (moduleCache rt),
                      invoked := invoked rt @ [modId]\<rparr>) of
             None \<Rightarrow> None
           | Some (Inl e, rt2) \<Rightarrow> Some (Inl e, rt2)
           | Some (Inr u, rt2) \<Rightarrow> Some (Inr (currentExports rt2 modId), rt2)))
   \<and> (onceEach rt \<and> loadModule k modId rt = Some (out, rt') \<longrightarrow> onceEach rt')
   \<and> (card (pendingModules rt) < k \<longrightarrow> loadModule k modId rt \<noteq> None)"
proof (intro conjI impI)
  assume "map_of (moduleCache rt) modId = Some m"
  then show "loadModule (Suc n) modId rt = Some (Inr (m_exports m), rt)" by simp
next
  assume "map_of (moduleCache rt) modId = None \<and> map_of (moduleRegistry rt) modId = Some factory"
  then show "loadModule (Suc n) modId rt =
          (case runFactory n modId factory
                  (rt\<lparr>moduleCache := AList.update modId \<lparr>m_exports = []\<rparr> (moduleCache rt),
                      invoked := invoked rt @ [modId]\<rparr>) of
             None \<Rightarrow> None
           | Some (Inl e, rt2) \<Rightarrow> Some (Inl e, rt2)
           | Some (Inr u, rt2) \<Rightarrow> Some (Inr (currentExports rt2 modId), rt2))"
    by (simp add: Let_def)
next
  assume "onceEach rt \<and> loadModule k modId rt = Some (out, rt')"
  with loader_evolves(1) [of k modId rt] show "onceEach rt'"
    by (auto simp: evolves_def)
next
  assume "card (pendingModules rt) < k"
  with loader_returns(1) show "loadModule k modId rt \<noteq> None" by blast
qed

text \<open>
  The theorem at two modules that import each other: the first call runs both factories
  once and returns, the second call on the same id returns the cached exports.
\<close>

theorem module_loader_contract_witness:
  "loadModule 3 ''./a.js'' cycleRuntime = Some (Inr [(''a'', ''() => a'')], cycleLoaded)
   \<and> onceEach cycleLoaded
   \<and> loadModule 1 ''./a.js'' cycleLoaded = Some (Inr [(''a'', ''() => a'')], cycleLoaded)
   \<and> loadModule 3 ''./a.js'' cycleRuntime \<noteq> None"
proof -
  have run: "loadModule 3 ''./a.js'' cycleRuntime = Some (Inr [(''a'', ''() => a'')], cycleLoaded)"
    by code_simp
  have fresh: "onceEach cycleRuntime" by (simp add: onceEach_def cycleRuntime_def)
  have cached: "map_of (moduleCache cycleLoaded) ''./a.js'' = Some \<lparr>m_exports = [(''a'', ''() => a'')]\<rparr>"
    by (simp add: cycleLoaded_def)
  have "card (pendingModules cycleRuntime) < 3"
    by (simp add: pendingModules_def cycleRuntime_def)
  with module_loader_contract [of cycleRuntime "''./a.js''" _ 0 _ 3 "Inr [(''a'', ''() => a'')]" cycleLoaded]
    module_loader_contract [of cycleLoaded "''./a.js''" "\<lparr>m_exports = [(''a'', ''() => a'')]\<rparr>" 0]
    run fresh cached
  show ?thesis by simp
qed


section \<open>Re-exports: loaded by the transformer, unknown to the graph\<close>














































end
